theory Spec2Isabelle
  imports Main "HOL-Library.Sublist"
begin

section \<open>Strings and characters\<close>

text \<open>
  A JavaScript string is a sequence of UTF-16 code units. The model covers the strings
  whose code units are all below 256: such a string is an Isabelle \<open>string\<close>, and the
  character \<open>c\<close> stands for the code unit \<open>of_char c\<close> (so \<open>CHR 0xA0\<close> is the no-break
  space U+00A0). On this range every library function used by the scraper
  (\<open>toLowerCase\<close>, \<open>trim\<close>, the classes \<open>\s\<close> and \<open>\w\<close>, case-insensitive
  comparison in a regular expression) is determined by the tables below.
\<close>

text \<open>The class \<open>\s\<close> and the characters removed by \<open>trim\<close>: TAB, LF, VT, FF, CR, SP, NBSP.\<close>

definition isSpaceJS :: "char \<Rightarrow> bool" where
  "isSpaceJS c = (of_char c \<in> {9, 10, 11, 12, 13, 32, 160 :: nat})"

text \<open>The class \<open>\w\<close> without the unicode flag: \<open>[A-Za-z0-9_]\<close>.\<close>

definition isWordChar :: "char \<Rightarrow> bool" where
  "isWordChar c =
     (let n = of_char c :: nat
      in (48 \<le> n \<and> n \<le> 57) \<or> (65 \<le> n \<and> n \<le> 90) \<or> n = 95 \<or> (97 \<le> n \<and> n \<le> 122))"

text \<open>
  \<open>Canonicalize\<close> of a regular expression with flag \<open>i\<close> and without flag \<open>u\<close>:
  the code unit of the upper-case form when that form is a single code unit and does
  not move a code unit from 128 or above to below 128. In the range of the model,
  \<open>a-z\<close>, \<open>U+00E0-U+00F6\<close> and \<open>U+00F8-U+00FE\<close> go down by 32, the micro sign U+00B5
  goes to U+039C, \<open>U+00FF\<close> goes to U+0178, and sharp s (whose upper case is two code
  units) stays.
\<close>

definition canonicalize :: "char \<Rightarrow> nat" where
  "canonicalize c =
     (let n = of_char c :: nat
      in if (97 \<le> n \<and> n \<le> 122) \<or> (224 \<le> n \<and> n \<le> 246) \<or> (248 \<le> n \<and> n \<le> 254) then n - 32
         else if n = 181 then 924
         else if n = 255 then 376
         else n)"

text \<open>\<open>String.prototype.toLowerCase\<close> on code units below 256.\<close>

definition toLowerCode :: "nat \<Rightarrow> nat" where
  "toLowerCode n =
     (if (65 \<le> n \<and> n \<le> 90) \<or> (192 \<le> n \<and> n \<le> 214) \<or> (216 \<le> n \<and> n \<le> 222) then n + 32 else n)"

definition toLowerCase :: "string \<Rightarrow> string" where
  "toLowerCase s = map (\<lambda>c. char_of (toLowerCode (of_char c))) s"

text \<open>\<open>String.prototype.includes\<close>: the argument occurs as a contiguous substring.\<close>

fun includes_js :: "string \<Rightarrow> string \<Rightarrow> bool" where
  "includes_js [] sub = (sub = [])"
| "includes_js (c # cs) sub = (prefix sub (c # cs) \<or> includes_js cs sub)"

text \<open>A pattern text matched character by character under flag \<open>i\<close>, at the start of a string.\<close>

fun ci_prefix :: "string \<Rightarrow> string \<Rightarrow> bool" where
  "ci_prefix [] s = True"
| "ci_prefix (p # ps) [] = False"
| "ci_prefix (p # ps) (c # cs) = (canonicalize p = canonicalize c \<and> ci_prefix ps cs)"


section \<open>URL resolver\<close>

text \<open>
  \<^verbatim>\<open>
  export function parseGreenhouseUrl(url) {
    const patterns = [
      /greenhouse\.io\/([^\/\?]+)/i,
      /boards\.greenhouse\.io\/([^\/\?]+)/i,
      /job-boards\.greenhouse\.io\/([^\/\?]+)/i,
      /job-boards\.eu\.greenhouse\.io\/([^\/\?]+)/i,
    ];
    for (const pattern of patterns) {
      const match = url.match(pattern);
      if (match) {
        const region = url.includes(".eu.greenhouse.io") ? "eu" : "us";
        return { companyToken: match[1], region };
      }
    }
    return null;
  }
  \<close>
  Each pattern is a literal text (in which \<open>\.\<close> and \<open>\/\<close> stand for the characters
  themselves) followed by the capturing group \<open>([^\/\?]+)\<close>. A pattern is given by its
  literal text.
\<close>

record TenantReference =
  ref_companyToken :: string
  region :: string

text \<open>The class \<open>[^\/\?]\<close>.\<close>

definition seg_class :: "char \<Rightarrow> bool" where
  "seg_class c = (c \<noteq> CHR ''/'' \<and> c \<noteq> CHR ''?'')"

text \<open>
  One attempt of the matcher at the start of \<open>s\<close>: the literal text under flag \<open>i\<close>, then
  the greedy group, which takes the longest run of class characters and needs one at
  least. The value is the capture \<open>match[1]\<close>.
\<close>

definition match_here :: "string \<Rightarrow> string \<Rightarrow> string option" where
  "match_here lit s =
     (if ci_prefix lit s
      then (let tok = takeWhile seg_class (drop (length lit) s)
            in if tok = [] then None else Some tok)
      else None)"

text \<open>\<open>url.match(pattern)\<close> without flag \<open>g\<close>: the attempt at the leftmost offset that succeeds.\<close>

fun regex_search :: "string \<Rightarrow> string \<Rightarrow> string option" where
  "regex_search lit [] = match_here lit []"
| "regex_search lit (c # cs) =
     (case match_here lit (c # cs) of
        Some tok \<Rightarrow> Some tok
      | None \<Rightarrow> regex_search lit cs)"

definition patterns :: "string list" where
  "patterns =
     [''greenhouse.io/'',
      ''boards.greenhouse.io/'',
      ''job-boards.greenhouse.io/'',
      ''job-boards.eu.greenhouse.io/'']"

fun try_patterns :: "string \<Rightarrow> string list \<Rightarrow> TenantReference option" where
  "try_patterns url [] = None"
| "try_patterns url (pattern # rest) =
     (case regex_search pattern url of
        Some tok \<Rightarrow>
          Some \<lparr>ref_companyToken = tok,
                region = (if includes_js url ''.eu.greenhouse.io'' then ''eu'' else ''us'')\<rparr>
      | None \<Rightarrow> try_patterns url rest)"

definition parseGreenhouseUrl :: "string \<Rightarrow> TenantReference option" where
  "parseGreenhouseUrl url = try_patterns url patterns"

text \<open>
  The reading of the resolver's contract: at offset \<open>i\<close> the URL reads
  \<open>greenhouse.io/\<close>, letters in either case, and then a character other than \<open>/\<close> and
  \<open>?\<close>; the segment at that offset is the run of such characters after the slash.
\<close>

definition occurs_at :: "string \<Rightarrow> nat \<Rightarrow> bool" where
  "occurs_at url i =
     (let t = drop i url
      in map canonicalize (take 14 t) = map canonicalize ''greenhouse.io/''
         \<and> 14 < length t \<and> t ! 14 \<noteq> CHR ''/'' \<and> t ! 14 \<noteq> CHR ''?'')"

definition segment_at :: "string \<Rightarrow> nat \<Rightarrow> string" where
  "segment_at url i = takeWhile seg_class (drop (i + 14) url)"


section \<open>Content sanitizer\<close>

text \<open>
  \<^verbatim>\<open>
  const decodeHtml = (html) => {
    if (!html) return "";
    return html
      .replace(/&lt;/g, "<")
      .replace(/&gt;/g, ">")
      .replace(/&amp;/g, "&")
      .replace(/&quot;/g, '"')
      .replace(/&#39;/g, "'")
      .replace(/<[^>]*>/g, " ") // Strip HTML tags
      .replace(/\s+/g, " ") // Normalize whitespace
      .trim();
  };
  \<close>
\<close>

text \<open>
  \<open>s.replace(/pat/g, rep)\<close> for a pattern that is a literal, non-empty text: the
  occurrences are taken from left to right, and the scan resumes after each one.
\<close>

fun replace_all :: "string \<Rightarrow> string \<Rightarrow> string \<Rightarrow> string" where
  "replace_all pat rep [] = []"
| "replace_all pat rep (c # cs) =
     (if pat \<noteq> [] \<and> prefix pat (c # cs)
      then rep @ replace_all pat rep (drop (length pat) (c # cs))
      else c # replace_all pat rep cs)"

text \<open>
  \<open>s.replace(/<[^>]*>/g, " ")\<close>: an attempt at a \<open><\<close> succeeds when a \<open>>\<close> follows
  somewhere, and then ends at the first one; otherwise the \<open><\<close> stays.
\<close>

function strip_tags :: "string \<Rightarrow> string" where
  "strip_tags [] = []"
| "strip_tags (c # cs) =
     (if c = CHR ''<'' \<and> CHR ''>'' \<in> set cs
      then CHR '' '' # strip_tags (tl (dropWhile (\<lambda>x. x \<noteq> CHR ''>'') cs))
      else c # strip_tags cs)"
  by pat_completeness auto
termination
proof (relation "measure length")
  fix c :: char and cs :: string
  have "length (tl (dropWhile (\<lambda>x. x \<noteq> CHR ''>'') cs)) \<le> length cs"
    using length_dropWhile_le[of "\<lambda>x. x \<noteq> CHR ''>''" cs] by simp
  then show "(tl (dropWhile (\<lambda>x. x \<noteq> CHR ''>'') cs), c # cs) \<in> measure length"
    by simp
qed simp_all

text \<open>\<open>s.replace(/\s+/g, " ")\<close>: each maximal run of white space becomes one space.\<close>

function collapse_ws :: "string \<Rightarrow> string" where
  "collapse_ws [] = []"
| "collapse_ws (c # cs) =
     (if isSpaceJS c then CHR '' '' # collapse_ws (dropWhile isSpaceJS cs)
      else c # collapse_ws cs)"
  by pat_completeness auto
termination
proof (relation "measure length")
  fix c :: char and cs :: string
  show "(dropWhile isSpaceJS cs, c # cs) \<in> measure length"
    using length_dropWhile_le[of isSpaceJS cs] by simp
qed simp_all

definition trim :: "string \<Rightarrow> string" where
  "trim s = rev (dropWhile isSpaceJS (rev (dropWhile isSpaceJS s)))"

definition decodeHtml :: "string \<Rightarrow> string" where
  "decodeHtml html =
     (if html = [] then []
      else trim (collapse_ws (strip_tags
             (replace_all ''&#39;'' [CHR 0x27]
               (replace_all ''&quot;'' [CHR 0x22]
                 (replace_all ''&amp;'' ''&''
                   (replace_all ''&gt;'' ''>''
                     (replace_all ''&lt;'' ''<'' html))))))))"

text \<open>One of the five entities that the sanitizer decodes occurs in the text.\<close>

definition has_entity :: "string \<Rightarrow> bool" where
  "has_entity t =
     (includes_js t ''&lt;'' \<or> includes_js t ''&gt;'' \<or> includes_js t ''&amp;''
      \<or> includes_js t ''&quot;'' \<or> includes_js t ''&#39;'')"

text \<open>
  Shapes of a sanitized text: no \<open><\<close> with a \<open>>\<close> after it, and white space only as
  single spaces between other characters.
\<close>

fun no_tag :: "string \<Rightarrow> bool" where
  "no_tag [] = True"
| "no_tag (c # cs) = ((c \<noteq> CHR ''<'' \<or> CHR ''>'' \<notin> set cs) \<and> no_tag cs)"

fun ws_norm :: "string \<Rightarrow> bool" where
  "ws_norm [] = True"
| "ws_norm [c] = (isSpaceJS c \<longrightarrow> c = CHR '' '')"
| "ws_norm (c # d # cs) = ((isSpaceJS c \<longrightarrow> c = CHR '' '' \<and> \<not> isSpaceJS d) \<and> ws_norm (d # cs))"


section \<open>Job normalizer\<close>

text \<open>
  \<^verbatim>\<open>
  export class GreenhouseScraper {
    constructor(companyToken) {
      this.companyToken = companyToken;
      this.baseUrl = "https://boards-api.greenhouse.io/v1/boards";
    }
  \<close>
\<close>

record GreenhouseScraper =
  this_companyToken :: string
  baseUrl :: string

definition GreenhouseScraper_new :: "string \<Rightarrow> GreenhouseScraper" where
  "GreenhouseScraper_new token =
     \<lparr>this_companyToken = token, baseUrl = ''https://boards-api.greenhouse.io/v1/boards''\<rparr>"

text \<open>
  The vendor's job record. Every field may be absent or \<open>null\<close> (\<open>None\<close>). The
  identifier is a number or a string; a location, department or office is an object
  with a name, and a location's name may be absent too. Metadata entries and questions
  are passed through as they come.
\<close>

datatype json =
    JNull
  | JBool bool
  | JNum int
  | JStr string
  | JArr "json list"
  | JObj "(string \<times> json) list"

datatype job_id = IdNumber int | IdString string

record RawLocation =
  location_name :: "string option"

record RawDepartment =
  department_name :: string

record RawOffice =
  office_name :: string

record RawJobRecord =
  raw_id :: "job_id option"
  raw_title :: "string option"
  raw_absolute_url :: "string option"
  raw_location :: "RawLocation option"
  raw_departments :: "RawDepartment list option"
  raw_offices :: "RawOffice list option"
  raw_content :: "string option"
  raw_updated_at :: "string option"
  raw_metadata :: "json list option"
  raw_questions :: "json list option"

text \<open>
  The object that \<open>normalizeJob\<close> returns. A field whose value can be \<open>undefined\<close>
  has an option type, with \<open>None\<close> for \<open>undefined\<close>.
\<close>

record NormalizedJob =
  externalId :: "string option"
  title :: "string option"
  absoluteUrl :: "string option"
  applyUrl :: "string option"
  location :: string
  departments :: "string list"
  offices :: "string list"
  content :: string
  htmlContent :: string
  updatedAt :: "string option"
  metadata :: "json list"
  questions :: "json list"
  scrapedAt :: string
  source :: string
  companyToken :: string

text \<open>
  \<open>Number.prototype.toString\<close> on a number that is an integer of magnitude at most
  \<open>2^53\<close>, as the vendor's identifiers are: its decimal digits. Other numbers (fractions,
  and integers that a double rounds or prints with an exponent) are not identifiers of
  the model.
\<close>

fun digits :: "nat \<Rightarrow> string" where
  "digits n = (if n < 10 then [char_of (48 + n)] else digits (n div 10) @ [char_of (48 + n mod 10)])"

definition id_toString :: "job_id \<Rightarrow> string" where
  "id_toString v =
     (case v of
        IdNumber n \<Rightarrow> (if n < 0 then CHR ''-'' # digits (nat (- n)) else digits (nat n))
      | IdString s \<Rightarrow> s)"

text \<open>\<open>x || d\<close> for a string \<open>x\<close> that may be absent: \<open>undefined\<close>, \<open>null\<close> and \<open>""\<close> give \<open>d\<close>.\<close>

definition or_string :: "string option \<Rightarrow> string \<Rightarrow> string" where
  "or_string x d = (case x of None \<Rightarrow> d | Some s \<Rightarrow> if s = [] then d else s)"

text \<open>\<open>x || []\<close> for an array \<open>x\<close> that may be absent: every array, the empty one too, is kept.\<close>

definition or_array :: "'a list option \<Rightarrow> 'a list" where
  "or_array x = (case x of None \<Rightarrow> [] | Some xs \<Rightarrow> xs)"

text \<open>
  \<^verbatim>\<open>
  normalizeJob(job) {
    return {
      externalId: job.id?.toString(),
      title: job.title,
      absoluteUrl: job.absolute_url,
      applyUrl: job.absolute_url, // Same for Greenhouse
      location: job.location?.name || "Remote",
      departments: job.departments?.map((d) => d.name) || [],
      offices: job.offices?.map((o) => o.name) || [],
      content: job.content || "",
      htmlContent: job.content || "", // Greenhouse returns HTML
      updatedAt: job.updated_at,
      metadata: job.metadata || [],
      questions: job.questions || [],
      scrapedAt: new Date().toISOString(),
      source: "greenhouse",
      companyToken: this.companyToken,
    };
  }
  \<close>
  The receiver and the reading of the clock (\<open>new Date().toISOString()\<close>) are arguments.
\<close>

definition normalizeJob :: "GreenhouseScraper \<Rightarrow> string \<Rightarrow> RawJobRecord \<Rightarrow> NormalizedJob" where
  "normalizeJob self now job =
     \<lparr>externalId = map_option id_toString (raw_id job),
      title = raw_title job,
      absoluteUrl = raw_absolute_url job,
      applyUrl = raw_absolute_url job,
      location = or_string (Option.bind (raw_location job) location_name) ''Remote'',
      departments = or_array (map_option (map department_name) (raw_departments job)),
      offices = or_array (map_option (map office_name) (raw_offices job)),
      content = or_string (raw_content job) [],
      htmlContent = or_string (raw_content job) [],
      updatedAt = raw_updated_at job,
      metadata = or_array (raw_metadata job),
      questions = or_array (raw_questions job),
      scrapedAt = now,
      source = ''greenhouse'',
      companyToken = this_companyToken self\<rparr>"

text \<open>No field of a normalized job is \<open>undefined\<close>.\<close>

definition all_defined :: "NormalizedJob \<Rightarrow> bool" where
  "all_defined j =
     (externalId j \<noteq> None \<and> title j \<noteq> None \<and> absoluteUrl j \<noteq> None
      \<and> applyUrl j \<noteq> None \<and> updatedAt j \<noteq> None)"

text \<open>The record in which every optional field is absent.\<close>

definition empty_record :: RawJobRecord where
  "empty_record =
     \<lparr>raw_id = None, raw_title = None, raw_absolute_url = None, raw_location = None,
      raw_departments = None, raw_offices = None, raw_content = None,
      raw_updated_at = None, raw_metadata = None, raw_questions = None\<rparr>"


section \<open>Regular expressions built at run time\<close>

text \<open>
  The keyword matcher builds the source text of a pattern and passes it to the
  \<open>RegExp\<close> constructor with flag \<open>i\<close>. The constructor is modelled on the part of
  the pattern syntax that such a text can use: pattern characters, the escape of a
  syntax character, the assertions \<open>\b\<close> and \<open>\B\<close>, alternation and capturing groups.
  A pattern is a disjunction: a list of alternatives, each a list of terms.
\<close>

datatype re_term =
    Chr char
  | WordB
  | NotWordB
  | Group "re_term list list"

text \<open>
  What the constructor does with a source text: it returns a pattern, it throws a
  \<open>SyntaxError\<close> (\<open>Invalid\<close>), or the text uses syntax that the model leaves out
  (\<open>Outside\<close>: quantifiers, classes, \<open>.\<close>, \<open>^\<close>, \<open>$\<close>, other escapes, groups that start
  with \<open>?\<close>).
\<close>

datatype parse_result =
    Compiled "re_term list list"
  | Invalid
  | Outside

text \<open>The syntax characters of the pattern grammar: \<open>^ $ \ . * + ? ( ) [ ] { } |\<close>.\<close>

definition isSyntaxChar :: "char \<Rightarrow> bool" where
  "isSyntaxChar c = (c \<in> set (CHR 0x5C # ''^$.*+?()[]{}|''))"

text \<open>
  The parser reads the text from left to right. Its state is the disjunction under
  construction (the finished alternatives and the terms of the current one) and a
  stack of the disjunctions that enclose it, one for each open group.
\<close>

fun parse_pattern ::
  "(re_term list list \<times> re_term list) list \<Rightarrow> re_term list list \<times> re_term list \<Rightarrow> string
     \<Rightarrow> parse_result" where
  "parse_pattern stack (alts, cur) [] =
     (if stack = [] then Compiled (alts @ [cur]) else Invalid)"
| "parse_pattern stack (alts, cur) (c # cs) =
     (if c = CHR 0x5C then
        (case cs of
           [] \<Rightarrow> Invalid
         | e # rest \<Rightarrow>
             if e = CHR ''b'' then parse_pattern stack (alts, cur @ [WordB]) rest
             else if e = CHR ''B'' then parse_pattern stack (alts, cur @ [NotWordB]) rest
             else if isSyntaxChar e \<or> e = CHR ''/'' then parse_pattern stack (alts, cur @ [Chr e]) rest
             else Outside)
      else if c = CHR ''|'' then parse_pattern stack (alts @ [cur], []) cs
      else if c = CHR ''('' then
        (if cs \<noteq> [] \<and> hd cs = CHR ''?'' then Outside
         else parse_pattern ((alts, cur) # stack) ([], []) cs)
      else if c = CHR '')'' then
        (case stack of
           [] \<Rightarrow> Invalid
         | (palts, pcur) # stack' \<Rightarrow> parse_pattern stack' (palts, pcur @ [Group (alts @ [cur])]) cs)
      else if isSyntaxChar c then Outside
      else parse_pattern stack (alts, cur @ [Chr c]) cs)"

definition RegExp_i :: "string \<Rightarrow> parse_result" where
  "RegExp_i src = parse_pattern [] ([], []) src"

text \<open>
  \<open>\b\<close> holds at offset \<open>i\<close> when exactly one of the characters before and after the
  offset is a word character; beyond either end of the text there is none.
\<close>

definition word_boundary :: "string \<Rightarrow> nat \<Rightarrow> bool" where
  "word_boundary s i =
     ((0 < i \<and> i \<le> length s \<and> isWordChar (s ! (i - 1))) \<noteq> (i < length s \<and> isWordChar (s ! i)))"

text \<open>
  Matching from offset \<open>i\<close>: the offsets at which a match of the term, of the sequence
  of terms, of the disjunction can end. The patterns have neither repetition nor back
  references, so the backtracking matcher finds a match exactly when some choice of
  alternatives reaches an end offset.
\<close>

fun match_term :: "re_term \<Rightarrow> string \<Rightarrow> nat \<Rightarrow> nat list"
  and match_seq :: "re_term list \<Rightarrow> string \<Rightarrow> nat \<Rightarrow> nat list"
  and match_disj :: "re_term list list \<Rightarrow> string \<Rightarrow> nat \<Rightarrow> nat list" where
  "match_term (Chr c) s i =
     (if i < length s \<and> canonicalize (s ! i) = canonicalize c then [Suc i] else [])"
| "match_term WordB s i = (if word_boundary s i then [i] else [])"
| "match_term NotWordB s i = (if word_boundary s i then [] else [i])"
| "match_term (Group d) s i = match_disj d s i"
| "match_seq [] s i = [i]"
| "match_seq (t # ts) s i = concat (map (match_seq ts s) (match_term t s i))"
| "match_disj [] s i = []"
| "match_disj (a # as) s i = match_seq a s i @ match_disj as s i"

text \<open>\<open>regex.test(s)\<close> without flags \<open>g\<close> and \<open>y\<close>: a match starts at some offset of \<open>s\<close>.\<close>

definition regex_test :: "re_term list list \<Rightarrow> string \<Rightarrow> bool" where
  "regex_test r s = list_ex (\<lambda>i. match_disj r s i \<noteq> []) [0..<Suc (length s)]"


section \<open>Keyword matcher\<close>

text \<open>
  \<^verbatim>\<open>
  filterByKeywords(jobs, keywords) {
    if (!keywords || keywords.length === 0) return jobs;
    const escapedKeywords = keywords
      .map((kw) => kw.replace(/[.*+?^${}()|[\]\\]/g, "\\$&"))
      .join("|");
    const keywordRegex = new RegExp(`\\b(${escapedKeywords})\\b`, "i");
    return jobs.filter((job) => {
      const decodeHtml = ...
      const cleanContent = decodeHtml(job.content || "");
      const departmentsText = (job.departments || []).join(" ");
      const searchText = `${job.title || ""} ${cleanContent} ${departmentsText}`.toLowerCase();
      return keywordRegex.test(searchText);
    });
  }
  \<close>
\<close>

datatype js_error =
    Error string
  | SyntaxError
  | TypeError
  | AxiosError string "nat option"
  | OutsideModel

text \<open>The characters of the class \<open>[.*+?^${}()|[\]\\]\<close>.\<close>

definition metachars :: "char list" where
  "metachars = ''.*+?^${}()|[]'' @ [CHR 0x5C]"

text \<open>\<open>kw.replace(/[.*+?^${}()|[\]\\]/g, "\\$&")\<close>: a backslash before each character of the class.\<close>

definition escape_keyword :: "string \<Rightarrow> string" where
  "escape_keyword kw = concat (map (\<lambda>c. if c \<in> set metachars then [CHR 0x5C, c] else [c]) kw)"

text \<open>\<open>Array.prototype.join\<close> on an array of strings.\<close>

fun join_js :: "string \<Rightarrow> string list \<Rightarrow> string" where
  "join_js sep [] = []"
| "join_js sep [x] = x"
| "join_js sep (x # y # ys) = x @ sep @ join_js sep (y # ys)"

definition keyword_source :: "string list \<Rightarrow> string" where
  "keyword_source keywords =
     CHR 0x5C # ''b('' @ join_js ''|'' (map escape_keyword keywords) @ '')'' @ CHR 0x5C # ''b''"

definition searchText :: "NormalizedJob \<Rightarrow> string" where
  "searchText job =
     toLowerCase (or_string (title job) [] @ '' '' @ decodeHtml (or_string (Some (content job)) [])
                  @ '' '' @ join_js '' '' (departments job))"

text \<open>
  The keywords may be absent (\<open>None\<close>). The constructor's \<open>SyntaxError\<close> would leave the
  function as an exception: the result is the error or the filtered sequence.
\<close>

definition filterByKeywords :: "NormalizedJob list \<Rightarrow> string list option \<Rightarrow> js_error + NormalizedJob list" where
  "filterByKeywords jobs keywords =
     (case keywords of
        None \<Rightarrow> Inr jobs
      | Some kws \<Rightarrow>
          if length kws = 0 then Inr jobs
          else (case RegExp_i (keyword_source kws) of
                  Invalid \<Rightarrow> Inl SyntaxError
                | Outside \<Rightarrow> Inl OutsideModel
                | Compiled keywordRegex \<Rightarrow>
                    Inr (filter (\<lambda>job. regex_test keywordRegex (searchText job)) jobs)))"

text \<open>
  The contract of the matcher in the spec's words: some keyword occurs in the text as a
  whole word, letters compared without regard to case. An occurrence at offset \<open>i\<close> is
  whole when there is a word boundary on both of its sides.
\<close>

definition whole_word_at :: "string \<Rightarrow> string \<Rightarrow> nat \<Rightarrow> bool" where
  "whole_word_at kw text i =
     (word_boundary text i \<and> ci_prefix kw (drop i text) \<and> word_boundary text (i + length kw))"

definition whole_word_hit :: "string list \<Rightarrow> string \<Rightarrow> bool" where
  "whole_word_hit kws text =
     list_ex (\<lambda>kw. list_ex (whole_word_at kw text) [0..<Suc (length text)]) kws"

text \<open>A posting with the given title, content and department names.\<close>

definition posting :: "string option \<Rightarrow> string \<Rightarrow> string list \<Rightarrow> NormalizedJob" where
  "posting t c ds =
     \<lparr>externalId = Some ''1'', title = t, absoluteUrl = None, applyUrl = None,
      location = ''Remote'', departments = ds, offices = [], content = c, htmlContent = c,
      updatedAt = None, metadata = [], questions = [],
      scrapedAt = ''2024-01-01T00:00:00.000Z'', source = ''greenhouse'', companyToken = ''acme''\<rparr>"


section \<open>Fetch orchestrator\<close>

text \<open>
  \<^verbatim>\<open>
  async fetchJobs(filters = {}) {
    try {
      const url = `${this.baseUrl}/${this.companyToken}/jobs`;
      const response = await axios.get(url, {
        params: { content: "true", ...filters },
        headers: { "User-Agent": "JobScraper/1.0" },
        timeout: 15000,
      });
      const jobs = response.data.jobs || [];
      return jobs.map((job) => this.normalizeJob(job));
    } catch (error) {
      if (error.response?.status === 404) {
        throw new Error(
          `Company token "${this.companyToken}" not found in Greenhouse`,
        );
      }
      throw error;
    }
  }
  \<close>
  The transport is an argument: a function from the request to what \<open>axios.get\<close>
  does with it. It rejects with an error, which has a response status when the server
  answered, or it resolves with a response whose \<open>data\<close> is \<open>null\<close> (\<open>None\<close>) or a
  value whose field \<open>jobs\<close> is an array, absent or \<open>null\<close> (a body that is not an
  object has no such field). The clock is an argument
  too: call \<open>k\<close> of \<open>normalizeJob\<close> reads \<open>clock k\<close>. Writing to the console is left out.
\<close>

record http_request =
  req_url :: string
  req_params :: "string \<rightharpoonup> string"
  req_headers :: "string \<rightharpoonup> string"
  req_timeout :: nat

record listing_data =
  jobs_field :: "RawJobRecord list option"

datatype http_outcome =
    Rejected js_error
  | Resolved "listing_data option"

text \<open>
  The data of a response whose body is not a listing. The request sets no
  \<open>responseType\<close>, so a body that cannot be parsed reaches \<open>response.data\<close> as the
  text that was received, and the field \<open>jobs\<close> of a text is \<open>undefined\<close>.
\<close>

definition unparsed_body :: listing_data where
  "unparsed_body = \<lparr>jobs_field = None\<rparr>"

text \<open>\<open>error.response?.status\<close>.\<close>

definition response_status :: "js_error \<Rightarrow> nat option" where
  "response_status e = (case e of AxiosError msg st \<Rightarrow> st | _ \<Rightarrow> None)"

definition listing_request :: "GreenhouseScraper \<Rightarrow> (string \<rightharpoonup> string) \<Rightarrow> http_request" where
  "listing_request self filters =
     \<lparr>req_url = baseUrl self @ ''/'' @ this_companyToken self @ ''/jobs'',
      req_params = [''content'' \<mapsto> ''true''] ++ filters,
      req_headers = [''User-Agent'' \<mapsto> ''JobScraper/1.0''],
      req_timeout = 15000\<rparr>"

definition not_found_message :: "string \<Rightarrow> string" where
  "not_found_message token =
     ''Company token '' @ [CHR 0x22] @ token @ [CHR 0x22] @ '' not found in Greenhouse''"

definition fetchJobs ::
  "(http_request \<Rightarrow> http_outcome) \<Rightarrow> (nat \<Rightarrow> string) \<Rightarrow> GreenhouseScraper \<Rightarrow> (string \<rightharpoonup> string)
     \<Rightarrow> js_error + NormalizedJob list" where
  "fetchJobs axios_get clock self filters =
     (let attempt =
            (case axios_get (listing_request self filters) of
               Rejected e \<Rightarrow> Inl e
             | Resolved None \<Rightarrow> Inl TypeError
             | Resolved (Some data) \<Rightarrow>
                 Inr (map (\<lambda>(k, job). normalizeJob self (clock k) job)
                        (enumerate 0 (or_array (jobs_field data)))))
      in case attempt of
           Inr result \<Rightarrow> Inr result
         | Inl error \<Rightarrow>
             if response_status error = Some 404
             then Inl (Error (not_found_message (this_companyToken self)))
             else Inl error)"


section \<open>Properties of the URL resolver\<close>

lemma ci_prefix_iff:
  "ci_prefix p s \<longleftrightarrow> length p \<le> length s \<and> map canonicalize (take (length p) s) = map canonicalize p"
proof (induction p s rule: ci_prefix.induct)
  case (3 p ps c cs)
  then show ?case by auto
qed simp_all

lemma ci_prefix_append:
  "ci_prefix (p @ q) s \<longleftrightarrow> ci_prefix p s \<and> ci_prefix q (drop (length p) s)"
  by (induction p s rule: ci_prefix.induct) (cases q; simp_all)+

lemma regex_search_None_iff:
  "regex_search lit s = None \<longleftrightarrow> (\<forall>i\<le>length s. match_here lit (drop i s) = None)"
proof (induction s)
  case Nil
  then show ?case by simp
next
  case (Cons c cs)
  have "(\<forall>i\<le>length (c # cs). match_here lit (drop i (c # cs)) = None)
     \<longleftrightarrow> match_here lit (c # cs) = None \<and> (\<forall>i\<le>length cs. match_here lit (drop i cs) = None)"
    (is "?L \<longleftrightarrow> ?R")
  proof
    assume l: ?L
    have "match_here lit (drop 0 (c # cs)) = None" using l by blast
    moreover have "\<forall>i\<le>length cs. match_here lit (drop i cs) = None"
    proof (intro allI impI)
      fix i assume "i \<le> length cs"
      then have "match_here lit (drop (Suc i) (c # cs)) = None" using l by (metis Suc_le_mono length_Cons)
      then show "match_here lit (drop i cs) = None" by simp
    qed
    ultimately show ?R by simp
  next
    assume r: ?R
    show ?L
    proof (intro allI impI)
      fix i assume "i \<le> length (c # cs)"
      then show "match_here lit (drop i (c # cs)) = None" using r by (cases i) auto
    qed
  qed
  with Cons show ?case by (auto split: option.splits)
qed

lemma regex_search_Some_iff:
  "regex_search lit s = Some tok \<longleftrightarrow>
     (\<exists>i\<le>length s. match_here lit (drop i s) = Some tok \<and> (\<forall>j<i. match_here lit (drop j s) = None))"
proof (induction s)
  case Nil
  then show ?case by simp
next
  case (Cons c cs)
  show ?case
  proof (cases "match_here lit (c # cs)")
    case None
    have "(\<exists>i\<le>length (c # cs). match_here lit (drop i (c # cs)) = Some tok \<and> (\<forall>j<i. match_here lit (drop j (c # cs)) = None))
      \<longleftrightarrow> (\<exists>i\<le>length cs. match_here lit (drop i cs) = Some tok \<and> (\<forall>j<i. match_here lit (drop j cs) = None))"
      (is "?L \<longleftrightarrow> ?R")
    proof
      assume ?L
      then obtain i where i: "i \<le> length (c # cs)" "match_here lit (drop i (c # cs)) = Some tok"
        "\<forall>j<i. match_here lit (drop j (c # cs)) = None" by blast
      from i(2) None obtain k where k: "i = Suc k" by (cases i) auto
      have "\<forall>j<k. match_here lit (drop j cs) = None"
      proof (intro allI impI)
        fix j assume "j < k"
        then have "match_here lit (drop (Suc j) (c # cs)) = None" using i(3) k by blast
        then show "match_here lit (drop j cs) = None" by simp
      qed
      with i k show ?R by auto
    next
      assume ?R
      then obtain i where i: "i \<le> length cs" "match_here lit (drop i cs) = Some tok"
        "\<forall>j<i. match_here lit (drop j cs) = None" by blast
      have "\<forall>j<Suc i. match_here lit (drop j (c # cs)) = None"
      proof (intro allI impI)
        fix j assume "j < Suc i"
        then show "match_here lit (drop j (c # cs)) = None" using i(3) None by (cases j) auto
      qed
      with i show ?L by (intro exI[of _ "Suc i"]) simp
    qed
    with None Cons show ?thesis by simp
  next
    case (Some t)
    have "(\<exists>i\<le>length (c # cs). match_here lit (drop i (c # cs)) = Some tok \<and> (\<forall>j<i. match_here lit (drop j (c # cs)) = None))
      \<longleftrightarrow> t = tok" (is "?L \<longleftrightarrow> _")
    proof
      assume ?L
      then obtain i where i: "match_here lit (drop i (c # cs)) = Some tok"
        "\<forall>j<i. match_here lit (drop j (c # cs)) = None" by blast
      have "i = 0"
      proof (rule ccontr)
        assume "i \<noteq> 0"
        then have "match_here lit (drop 0 (c # cs)) = None" using i(2) by blast
        with Some show False by simp
      qed
      with i Some show "t = tok" by simp
    next
      assume "t = tok"
      with Some show ?L by (intro exI[of _ 0]) simp
    qed
    with Some show ?thesis by simp
  qed
qed

lemma takeWhile_drop_ne:
  "takeWhile P (drop n t) \<noteq> [] \<longleftrightarrow> n < length t \<and> P (t ! n)"
proof (cases "n < length t")
  case True
  then have "drop n t = t ! n # drop (Suc n) t" by (simp add: Cons_nth_drop_Suc)
  with True show ?thesis by simp
next
  case False
  then show ?thesis by simp
qed

lemma match_here_greenhouse:
  "match_here ''greenhouse.io/'' (drop i url) = Some tok \<longleftrightarrow> occurs_at url i \<and> tok = segment_at url i"
proof -
  let ?t = "drop i url"
  have len: "length ''greenhouse.io/'' = 14" by simp
  have tw: "takeWhile seg_class (drop 14 ?t) \<noteq> [] \<longleftrightarrow> 14 < length ?t \<and> seg_class (?t ! 14)"
    by (rule takeWhile_drop_ne)
  have seg: "segment_at url i = takeWhile seg_class (drop 14 ?t)"
    by (simp add: segment_at_def add.commute)
  have cp: "ci_prefix ''greenhouse.io/'' ?t \<longleftrightarrow>
      14 \<le> length ?t \<and> map canonicalize (take 14 ?t) = map canonicalize ''greenhouse.io/''"
    by (simp only: ci_prefix_iff len)
  show ?thesis
    unfolding match_here_def len Let_def occurs_at_def seg cp
    using tw by (auto simp: seg_class_def)
qed

lemma match_here_greenhouse_None:
  "match_here ''greenhouse.io/'' (drop i url) = None \<longleftrightarrow> \<not> occurs_at url i"
  using match_here_greenhouse[of i url] by (cases "match_here ''greenhouse.io/'' (drop i url)") auto

lemma match_here_longer:
  assumes "match_here (pre @ lit) t = Some tok"
  shows "match_here lit (drop (length pre) t) = Some tok"
  using assms by (auto simp: match_here_def ci_prefix_append Let_def add.commute split: if_splits)

lemma regex_search_longer:
  assumes "regex_search lit url = None"
  shows "regex_search (pre @ lit) url = None"
proof (rule ccontr)
  assume "regex_search (pre @ lit) url \<noteq> None"
  then obtain tok where "regex_search (pre @ lit) url = Some tok" by auto
  then obtain i where i: "i \<le> length url" "match_here (pre @ lit) (drop i url) = Some tok"
    unfolding regex_search_Some_iff by blast
  then have m: "match_here lit (drop (length pre + i) url) = Some tok"
    using match_here_longer[of pre lit "drop i url" tok] by simp
  have "length pre + i \<le> length url"
  proof (rule ccontr)
    assume "\<not> length pre + i \<le> length url"
    then have "drop (length pre + i) url = []" by simp
    with m show False by (cases lit) (simp_all add: match_here_def)
  qed
  with assms m show False unfolding regex_search_None_iff by auto
qed

lemma parseGreenhouseUrl_first:
  "parseGreenhouseUrl url =
     map_option (\<lambda>tok. \<lparr>ref_companyToken = tok,
        region = (if includes_js url ''.eu.greenhouse.io'' then ''eu'' else ''us'')\<rparr>)
       (regex_search ''greenhouse.io/'' url)"
proof (cases "regex_search ''greenhouse.io/'' url")
  case None
  have a: "regex_search ''boards.greenhouse.io/'' url = None"
    using regex_search_longer[OF None, of "''boards.''"] by simp
  have b: "regex_search ''job-boards.greenhouse.io/'' url = None"
    using regex_search_longer[OF None, of "''job-boards.''"] by simp
  have c: "regex_search ''job-boards.eu.greenhouse.io/'' url = None"
    using regex_search_longer[OF None, of "''job-boards.eu.''"] by simp
  show ?thesis by (simp add: parseGreenhouseUrl_def patterns_def None a b c)
next
  case (Some tok)
  then show ?thesis by (simp add: parseGreenhouseUrl_def patterns_def)
qed

lemma includes_js_iff: "includes_js s sub \<longleftrightarrow> (\<exists>pre post. s = pre @ sub @ post)"
proof (induction s)
  case Nil
  then show ?case by auto
next
  case (Cons c cs)
  show ?case
  proof
    assume "includes_js (c # cs) sub"
    then consider "prefix sub (c # cs)" | "includes_js cs sub" by auto
    then show "\<exists>pre post. c # cs = pre @ sub @ post"
    proof cases
      case 1
      then obtain post where "c # cs = sub @ post" by (auto simp: prefix_def)
      then have "c # cs = [] @ sub @ post" by simp
      then show ?thesis by blast
    next
      case 2
      with Cons obtain pre post where "cs = pre @ sub @ post" by blast
      then have "c # cs = (c # pre) @ sub @ post" by simp
      then show ?thesis by blast
    qed
  next
    assume "\<exists>pre post. c # cs = pre @ sub @ post"
    then obtain pre post where e: "c # cs = pre @ sub @ post" by blast
    show "includes_js (c # cs) sub"
    proof (cases pre)
      case Nil
      with e have "prefix sub (c # cs)" by (simp add: prefix_def)
      then show ?thesis by simp
    next
      case (Cons a pre')
      with e have "cs = pre' @ sub @ post" by simp
      with Cons.IH show ?thesis by auto
    qed
  qed
qed

lemma try_patterns_region:
  "try_patterns url ps = Some r \<Longrightarrow>
     region r = (if includes_js url ''.eu.greenhouse.io'' then ''eu'' else ''us'')"
  by (induction ps) (auto split: option.splits)

text \<open>
  C2. The resolver maps \<open>https://boards.greenhouse.io/acme\<close> to the tenant \<open>acme\<close> in
  region \<open>us\<close>, maps \<open>https://job-boards.eu.greenhouse.io/acme\<close> to \<open>acme\<close> in region
  \<open>eu\<close>, and returns no reference for \<open>https://example.com/careers\<close>. Whatever the
  list of patterns and whichever of them matched, the region of a result is \<open>eu\<close>
  exactly when the text \<open>.eu.greenhouse.io\<close> occurs somewhere in the URL.
\<close>

theorem C2_resolver_examples_and_region:
  "parseGreenhouseUrl ''https://boards.greenhouse.io/acme''
     = Some \<lparr>ref_companyToken = ''acme'', region = ''us''\<rparr>
   \<and> parseGreenhouseUrl ''https://job-boards.eu.greenhouse.io/acme''
     = Some \<lparr>ref_companyToken = ''acme'', region = ''eu''\<rparr>
   \<and> parseGreenhouseUrl ''https://example.com/careers'' = None
   \<and> parseGreenhouseUrl url = try_patterns url patterns
   \<and> (try_patterns url ps = Some r \<longrightarrow>
        region r = (if \<exists>pre post. url = pre @ ''.eu.greenhouse.io'' @ post then ''eu'' else ''us''))"
proof -
  have a: "parseGreenhouseUrl ''https://boards.greenhouse.io/acme''
     = Some \<lparr>ref_companyToken = ''acme'', region = ''us''\<rparr>"
    by code_simp
  have b: "parseGreenhouseUrl ''https://job-boards.eu.greenhouse.io/acme''
     = Some \<lparr>ref_companyToken = ''acme'', region = ''eu''\<rparr>"
    by code_simp
  have c: "parseGreenhouseUrl ''https://example.com/careers'' = None"
    by code_simp
  have d: "try_patterns url ps = Some r \<longrightarrow>
        region r = (if \<exists>pre post. url = pre @ ''.eu.greenhouse.io'' @ post then ''eu'' else ''us'')"
    using try_patterns_region[of url ps r] by (simp only: includes_js_iff) blast
  show ?thesis using a b c d parseGreenhouseUrl_def[of url] by blast
qed

theorem C2_resolver_examples_and_region_witness:
  "try_patterns ''https://x.eu.greenhouse.io/acme'' [''greenhouse.io/'']
     = Some \<lparr>ref_companyToken = ''acme'', region = ''eu''\<rparr>
   \<and> region \<lparr>ref_companyToken = ''acme'', region = ''eu''\<rparr> = ''eu''
   \<and> ''https://x.eu.greenhouse.io/acme'' = ''https://x'' @ ''.eu.greenhouse.io'' @ ''/acme''"
proof -
  have h: "try_patterns ''https://x.eu.greenhouse.io/acme'' [''greenhouse.io/'']
     = Some \<lparr>ref_companyToken = ''acme'', region = ''eu''\<rparr>"
    by code_simp
  show ?thesis
    using h C2_resolver_examples_and_region
      [of "''https://x.eu.greenhouse.io/acme''" "[''greenhouse.io/'']"
          "\<lparr>ref_companyToken = ''acme'', region = ''eu''\<rparr>"]
    by simp
qed

text \<open>
  C9, as the spec states it, read with the substring compared character for character:
  the URL \<open>https://boards.GREENHOUSE.io/acme\<close> resolves although the text
  \<open>greenhouse.io/\<close> does not occur in it.
\<close>

theorem C9_exact_substring_counterexample:
  "parseGreenhouseUrl ''https://boards.GREENHOUSE.io/acme''
     = Some \<lparr>ref_companyToken = ''acme'', region = ''us''\<rparr>
   \<and> \<not> includes_js ''https://boards.GREENHOUSE.io/acme'' ''greenhouse.io/''"
  by code_simp

text \<open>
  C9, amended. Resolution succeeds exactly when, at some offset, the URL reads
  \<open>greenhouse.io/\<close> with letters in either case, followed by a character other than
  \<open>/\<close> and \<open>?\<close>; the tenant identifier is the segment after the first such offset. The
  first pattern alone decides every input: dropping the three subdomain patterns
  changes no result. Inputs outside the four documented shapes resolve too, such as
  \<open>https://api.greenhouse.io/v1/boards\<close> and a \<open>greenhouse.io\<close> path under another host.
\<close>

theorem C9_first_pattern_decides:
  "(parseGreenhouseUrl url \<noteq> None \<longleftrightarrow> (\<exists>i. occurs_at url i))
   \<and> (parseGreenhouseUrl url = Some r \<longrightarrow>
        (\<exists>i. occurs_at url i \<and> (\<forall>j<i. \<not> occurs_at url j) \<and> ref_companyToken r = segment_at url i))
   \<and> parseGreenhouseUrl url = try_patterns url (take 1 patterns)
   \<and> parseGreenhouseUrl ''https://api.greenhouse.io/v1/boards''
        = Some \<lparr>ref_companyToken = ''v1'', region = ''us''\<rparr>
   \<and> parseGreenhouseUrl ''https://example.com/greenhouse.io/acme''
        = Some \<lparr>ref_companyToken = ''acme'', region = ''us''\<rparr>"
proof -
  let ?mk = "\<lambda>tok. \<lparr>ref_companyToken = tok,
        region = (if includes_js url ''.eu.greenhouse.io'' then ''eu'' else ''us'')\<rparr>"
  have first: "parseGreenhouseUrl url = map_option ?mk (regex_search ''greenhouse.io/'' url)"
    by (rule parseGreenhouseUrl_first)
  have some: "regex_search ''greenhouse.io/'' url = Some tok \<longleftrightarrow>
      (\<exists>i\<le>length url. (occurs_at url i \<and> tok = segment_at url i) \<and> (\<forall>j<i. \<not> occurs_at url j))" for tok
    by (simp only: regex_search_Some_iff match_here_greenhouse match_here_greenhouse_None)
  have bound: "occurs_at url i \<Longrightarrow> i \<le> length url" for i
    by (auto simp: occurs_at_def Let_def)
  have p1: "parseGreenhouseUrl url \<noteq> None \<longleftrightarrow> (\<exists>i. occurs_at url i)"
  proof
    assume "parseGreenhouseUrl url \<noteq> None"
    then obtain tok where "regex_search ''greenhouse.io/'' url = Some tok"
      unfolding first by auto
    then show "\<exists>i. occurs_at url i" unfolding some by blast
  next
    assume "\<exists>i. occurs_at url i"
    then obtain i where i: "occurs_at url i" by blast
    have "regex_search ''greenhouse.io/'' url \<noteq> None"
    proof
      assume "regex_search ''greenhouse.io/'' url = None"
      then have "match_here ''greenhouse.io/'' (drop i url) = None"
        unfolding regex_search_None_iff using bound[OF i] by blast
      with i show False by (simp add: match_here_greenhouse_None)
    qed
    then show "parseGreenhouseUrl url \<noteq> None" unfolding first by simp
  qed
  have p2: "parseGreenhouseUrl url = Some r \<longrightarrow>
        (\<exists>i. occurs_at url i \<and> (\<forall>j<i. \<not> occurs_at url j) \<and> ref_companyToken r = segment_at url i)"
  proof
    assume "parseGreenhouseUrl url = Some r"
    then obtain tok where t: "regex_search ''greenhouse.io/'' url = Some tok" "r = ?mk tok"
      unfolding first by auto
    from t(1) obtain i where "occurs_at url i" "tok = segment_at url i" "\<forall>j<i. \<not> occurs_at url j"
      unfolding some by blast
    with t(2) show "\<exists>i. occurs_at url i \<and> (\<forall>j<i. \<not> occurs_at url j) \<and> ref_companyToken r = segment_at url i"
      by auto
  qed
  have p3: "parseGreenhouseUrl url = try_patterns url (take 1 patterns)"
    unfolding first by (simp add: patterns_def split: option.splits)
  have p4: "parseGreenhouseUrl ''https://api.greenhouse.io/v1/boards''
        = Some \<lparr>ref_companyToken = ''v1'', region = ''us''\<rparr>"
    by code_simp
  have p5: "parseGreenhouseUrl ''https://example.com/greenhouse.io/acme''
        = Some \<lparr>ref_companyToken = ''acme'', region = ''us''\<rparr>"
    by code_simp
  show ?thesis using p1 p2 p3 p4 p5 by blast
qed

theorem C9_first_pattern_decides_witness:
  "parseGreenhouseUrl ''https://boards.GREENHOUSE.io/acme''
     = Some \<lparr>ref_companyToken = ''acme'', region = ''us''\<rparr>
   \<and> (\<exists>i. occurs_at ''https://boards.GREENHOUSE.io/acme'' i
          \<and> ref_companyToken \<lparr>ref_companyToken = ''acme'', region = ''us''\<rparr>
              = segment_at ''https://boards.GREENHOUSE.io/acme'' i)"
proof -
  have h: "parseGreenhouseUrl ''https://boards.GREENHOUSE.io/acme''
     = Some \<lparr>ref_companyToken = ''acme'', region = ''us''\<rparr>"
    by code_simp
  show ?thesis
    using h C9_first_pattern_decides
      [of "''https://boards.GREENHOUSE.io/acme''" "\<lparr>ref_companyToken = ''acme'', region = ''us''\<rparr>"]
    by blast
qed

section \<open>Properties of the content sanitizer\<close>

lemma set_strip_tags: "set (strip_tags x) \<subseteq> insert (CHR '' '') (set x)"
proof (induction x rule: strip_tags.induct)
  case 1
  then show ?case by simp
next
  case (2 c cs)
  have "set (tl (dropWhile (\<lambda>x. x \<noteq> CHR ''>'') cs)) \<subseteq> set cs"
  proof -
    have "set (tl ys) \<subseteq> set ys" for ys :: string by (cases ys) auto
    moreover have "set (dropWhile (\<lambda>x. x \<noteq> CHR ''>'') cs) \<subseteq> set cs"
      by (auto dest: set_dropWhileD)
    ultimately show ?thesis by blast
  qed
  with 2 show ?case by auto
qed

lemma set_collapse_ws: "set (collapse_ws x) \<subseteq> insert (CHR '' '') (set x)"
proof (induction x rule: collapse_ws.induct)
  case 1
  then show ?case by simp
next
  case (2 c cs)
  have "set (dropWhile isSpaceJS cs) \<subseteq> set cs"
    by (auto dest: set_dropWhileD)
  with 2 show ?case by auto
qed

lemma no_tag_append: "no_tag (a @ b) \<Longrightarrow> no_tag a \<and> no_tag b"
  by (induction a) auto

lemma no_tag_dropWhile: "no_tag x \<Longrightarrow> no_tag (dropWhile P x)"
  using no_tag_append[of "takeWhile P x" "dropWhile P x"] by simp

lemma no_tag_strip_tags: "no_tag (strip_tags x)"
proof (induction x rule: strip_tags.induct)
  case 1
  then show ?case by simp
next
  case (2 c cs)
  show ?case
  proof (cases "c = CHR ''<'' \<and> CHR ''>'' \<in> set cs")
    case True
    with 2 show ?thesis by simp
  next
    case False
    have "CHR ''>'' \<in> set (strip_tags cs) \<Longrightarrow> CHR ''>'' \<in> set cs"
      using set_strip_tags[of cs] by auto
    with False 2 show ?thesis by auto
  qed
qed

lemma strip_tags_fix: "no_tag x \<Longrightarrow> strip_tags x = x"
  by (induction x) auto

lemma no_tag_collapse_ws: "no_tag x \<Longrightarrow> no_tag (collapse_ws x)"
proof (induction x rule: collapse_ws.induct)
  case 1
  then show ?case by simp
next
  case (2 c cs)
  show ?case
  proof (cases "isSpaceJS c")
    case True
    with 2 show ?thesis by (simp add: no_tag_dropWhile)
  next
    case False
    have "CHR ''>'' \<in> set (collapse_ws cs) \<Longrightarrow> CHR ''>'' \<in> set cs"
      using set_collapse_ws[of cs] by auto
    with False 2 show ?thesis by auto
  qed
qed

lemma trim_decomp: "\<exists>a b. x = a @ trim x @ b"
proof -
  let ?y = "dropWhile isSpaceJS x"
  have "rev ?y = takeWhile isSpaceJS (rev ?y) @ dropWhile isSpaceJS (rev ?y)" by simp
  then have "?y = rev (dropWhile isSpaceJS (rev ?y)) @ rev (takeWhile isSpaceJS (rev ?y))"
    by (metis rev_append rev_rev_ident)
  then have "?y = trim x @ rev (takeWhile isSpaceJS (rev ?y))" by (simp add: trim_def)
  moreover have "x = takeWhile isSpaceJS x @ ?y" by simp
  ultimately show ?thesis by metis
qed

lemma no_tag_trim: "no_tag x \<Longrightarrow> no_tag (trim x)"
proof -
  assume a: "no_tag x"
  obtain p q where "x = p @ trim x @ q" using trim_decomp by blast
  with a have "no_tag (p @ trim x @ q)" by simp
  then show ?thesis using no_tag_append by blast
qed

lemma collapse_ws_head:
  "collapse_ws x = [] \<or> \<not> isSpaceJS (hd (collapse_ws x)) \<or> (x \<noteq> [] \<and> isSpaceJS (hd x))"
  by (cases x) auto

lemma dropWhile_head: "dropWhile P x = [] \<or> \<not> P (hd (dropWhile P x))"
  by (metis hd_dropWhile)

lemma space_is_space: "isSpaceJS (CHR '' '')"
  by (simp add: isSpaceJS_def)

lemma ws_norm_Cons:
  "ws_norm (c # cs) \<longleftrightarrow> (isSpaceJS c \<longrightarrow> c = CHR '' '' \<and> (cs = [] \<or> \<not> isSpaceJS (hd cs))) \<and> ws_norm cs"
  by (cases cs) auto

lemma ws_norm_collapse_ws: "ws_norm (collapse_ws x)"
proof (induction x rule: collapse_ws.induct)
  case 1
  then show ?case by simp
next
  case (2 c cs)
  show ?case
  proof (cases "isSpaceJS c")
    case True
    let ?d = "dropWhile isSpaceJS cs"
    have "collapse_ws ?d = [] \<or> \<not> isSpaceJS (hd (collapse_ws ?d))"
      using collapse_ws_head[of ?d] dropWhile_head[of isSpaceJS cs] by auto
    with True 2 show ?thesis by (simp add: ws_norm_Cons)
  next
    case False
    with 2 show ?thesis by (simp add: ws_norm_Cons)
  qed
qed

lemma collapse_ws_fix: "ws_norm x \<Longrightarrow> collapse_ws x = x"
proof (induction x)
  case Nil
  then show ?case by simp
next
  case (Cons c cs)
  then have n: "ws_norm cs" and h: "isSpaceJS c \<longrightarrow> c = CHR '' '' \<and> (cs = [] \<or> \<not> isSpaceJS (hd cs))"
    by (simp_all add: ws_norm_Cons)
  show ?case
  proof (cases "isSpaceJS c")
    case True
    with h have "dropWhile isSpaceJS cs = cs" by (cases cs) auto
    with True h n Cons.IH show ?thesis by simp
  next
    case False
    with n Cons.IH show ?thesis by simp
  qed
qed

lemma ws_norm_append: "ws_norm (a @ b) \<Longrightarrow> ws_norm a \<and> ws_norm b"
proof (induction a)
  case Nil
  then show ?case by simp
next
  case (Cons c a)
  then have "ws_norm (a @ b)" by (simp add: ws_norm_Cons)
  with Cons.IH have ih: "ws_norm a" "ws_norm b" by simp_all
  have "isSpaceJS c \<longrightarrow> c = CHR '' '' \<and> (a = [] \<or> \<not> isSpaceJS (hd a))"
    using Cons.prems by (cases a) (auto simp: ws_norm_Cons)
  with ih show ?case by (simp add: ws_norm_Cons)
qed

lemma ws_norm_trim: "ws_norm x \<Longrightarrow> ws_norm (trim x)"
proof -
  assume a: "ws_norm x"
  obtain p q where "x = p @ trim x @ q" using trim_decomp by blast
  with a have "ws_norm (p @ trim x @ q)" by simp
  then show ?thesis using ws_norm_append by blast
qed

lemma trim_head: "trim x = [] \<or> \<not> isSpaceJS (hd (trim x))"
proof (cases "trim x = []")
  case True
  then show ?thesis by simp
next
  case False
  let ?y = "dropWhile isSpaceJS x"
  have y: "?y = trim x @ rev (takeWhile isSpaceJS (rev ?y))"
  proof -
    have "rev ?y = takeWhile isSpaceJS (rev ?y) @ dropWhile isSpaceJS (rev ?y)" by simp
    then have "?y = rev (dropWhile isSpaceJS (rev ?y)) @ rev (takeWhile isSpaceJS (rev ?y))"
      by (metis rev_append rev_rev_ident)
    then show ?thesis by (simp add: trim_def)
  qed
  with False have "hd ?y = hd (trim x)" by (metis hd_append2)
  moreover from False y have "?y \<noteq> []" by (metis append_is_Nil_conv)
  ultimately show ?thesis using dropWhile_head[of isSpaceJS x] by auto
qed

lemma trim_last: "trim x = [] \<or> \<not> isSpaceJS (last (trim x))"
proof -
  let ?z = "dropWhile isSpaceJS (rev (dropWhile isSpaceJS x))"
  have "?z = [] \<or> \<not> isSpaceJS (hd ?z)" by (rule dropWhile_head)
  moreover have "trim x = rev ?z" by (simp add: trim_def)
  ultimately show ?thesis by (auto simp: last_rev)
qed

lemma dw_fix: "ys \<noteq> [] \<Longrightarrow> \<not> P (hd ys) \<Longrightarrow> dropWhile P ys = ys"
  by (cases ys) auto

lemma trim_fix:
  assumes "x = [] \<or> (\<not> isSpaceJS (hd x) \<and> \<not> isSpaceJS (last x))"
  shows "trim x = x"
proof (cases x)
  case Nil
  then show ?thesis by (simp add: trim_def)
next
  case (Cons c cs)
  with assms have h: "\<not> isSpaceJS c" and l: "\<not> isSpaceJS (last x)" by simp_all
  from h Cons have a: "dropWhile isSpaceJS x = x" by simp
  have "hd (rev x) = last x" by (simp add: hd_rev)
  moreover have "rev x \<noteq> []" using Cons by simp
  ultimately have "dropWhile isSpaceJS (rev x) = rev x"
    using l dw_fix[of "rev x"] by simp
  with a show ?thesis by (simp add: trim_def)
qed

lemma replace_all_fix: "\<not> includes_js x pat \<Longrightarrow> replace_all pat rep x = x"
  by (induction x) auto

lemma length_replace_all_le:
  "length rep \<le> length pat \<Longrightarrow> length (replace_all pat rep x) \<le> length x"
proof (induction pat rep x rule: replace_all.induct)
  case (1 pat rep)
  then show ?case by simp
next
  case (2 pat rep c cs)
  show ?case
  proof (cases "pat \<noteq> [] \<and> prefix pat (c # cs)")
    case True
    then have "length pat \<le> length (c # cs)" by (auto dest: prefix_length_le)
    moreover have "length (replace_all pat rep (drop (length pat) (c # cs))) \<le> length (c # cs) - length pat"
      using 2(1)[OF True 2(3)] by simp
    ultimately show ?thesis using True 2(3) by simp
  next
    case False
    with 2 show ?thesis by auto
  qed
qed

lemma length_replace_all_less:
  "length rep < length pat \<Longrightarrow> includes_js x pat \<Longrightarrow> length (replace_all pat rep x) < length x"
proof (induction x)
  case Nil
  then show ?case by simp
next
  case (Cons c cs)
  show ?case
  proof (cases "prefix pat (c # cs)")
    case True
    then have "length pat \<le> length (c # cs)" by (auto dest: prefix_length_le)
    moreover have "length (replace_all pat rep (drop (length pat) (c # cs))) \<le> length (c # cs) - length pat"
      using length_replace_all_le[of rep pat "drop (length pat) (c # cs)"] Cons.prems(1) by simp
    moreover have "pat \<noteq> []" using Cons.prems(1) by auto
    ultimately show ?thesis using True Cons.prems(1) by simp
  next
    case False
    with Cons show ?thesis by auto
  qed
qed

lemma length_strip_tags: "length (strip_tags x) \<le> length x"
proof (induction x rule: strip_tags.induct)
  case 1
  then show ?case by simp
next
  case (2 c cs)
  have "length (tl (dropWhile (\<lambda>x. x \<noteq> CHR ''>'') cs)) \<le> length cs"
    using length_dropWhile_le[of "\<lambda>x. x \<noteq> CHR ''>''" cs] by simp
  with 2 show ?case by auto
qed

lemma length_collapse_ws: "length (collapse_ws x) \<le> length x"
proof (induction x rule: collapse_ws.induct)
  case 1
  then show ?case by simp
next
  case (2 c cs)
  have "length (dropWhile isSpaceJS cs) \<le> length cs"
    by (rule length_dropWhile_le)
  with 2 show ?case by auto
qed

lemma length_trim: "length (trim x) \<le> length x"
proof -
  obtain p q where "x = p @ trim x @ q" using trim_decomp by blast
  then have "length x = length p + length (trim x) + length q" by (metis length_append add.assoc)
  then show ?thesis by simp
qed

lemma length_entities_le:
  "length (replace_all ''&#39;'' [CHR 0x27]
               (replace_all ''&quot;'' [CHR 0x22]
                 (replace_all ''&amp;'' ''&''
                   (replace_all ''&gt;'' ''>''
                     (replace_all ''&lt;'' ''<'' t))))) \<le> length t"
proof -
  have "length (replace_all ''&lt;'' ''<'' t) \<le> length t"
    by (rule length_replace_all_le) simp
  moreover have "length (replace_all ''&gt;'' ''>'' u) \<le> length u" for u
    by (rule length_replace_all_le) simp
  moreover have "length (replace_all ''&amp;'' ''&'' u) \<le> length u" for u
    by (rule length_replace_all_le) simp
  moreover have "length (replace_all ''&quot;'' [CHR 0x22] u) \<le> length u" for u
    by (rule length_replace_all_le) simp
  moreover have "length (replace_all ''&#39;'' [CHR 0x27] u) \<le> length u" for u
    by (rule length_replace_all_le) simp
  ultimately show ?thesis by (meson le_trans)
qed

lemma length_entities_less:
  assumes "has_entity t"
  shows "length (replace_all ''&#39;'' [CHR 0x27]
               (replace_all ''&quot;'' [CHR 0x22]
                 (replace_all ''&amp;'' ''&''
                   (replace_all ''&gt;'' ''>''
                     (replace_all ''&lt;'' ''<'' t))))) < length t"
proof -
  let ?r1 = "replace_all ''&lt;'' ''<''"
  let ?r2 = "replace_all ''&gt;'' ''>''"
  let ?r3 = "replace_all ''&amp;'' ''&''"
  let ?r4 = "replace_all ''&quot;'' [CHR 0x22]"
  let ?r5 = "replace_all ''&#39;'' [CHR 0x27]"
  have le1: "length (?r1 u) \<le> length u" for u by (rule length_replace_all_le) simp
  have le2: "length (?r2 u) \<le> length u" for u by (rule length_replace_all_le) simp
  have le3: "length (?r3 u) \<le> length u" for u by (rule length_replace_all_le) simp
  have le4: "length (?r4 u) \<le> length u" for u by (rule length_replace_all_le) simp
  have le5: "length (?r5 u) \<le> length u" for u by (rule length_replace_all_le) simp
  have lt1: "includes_js u ''&lt;'' \<Longrightarrow> length (?r1 u) < length u" for u
    by (rule length_replace_all_less) simp_all
  have lt2: "includes_js u ''&gt;'' \<Longrightarrow> length (?r2 u) < length u" for u
    by (rule length_replace_all_less) simp_all
  have lt3: "includes_js u ''&amp;'' \<Longrightarrow> length (?r3 u) < length u" for u
    by (rule length_replace_all_less) simp_all
  have lt4: "includes_js u ''&quot;'' \<Longrightarrow> length (?r4 u) < length u" for u
    by (rule length_replace_all_less) simp_all
  have lt5: "includes_js u ''&#39;'' \<Longrightarrow> length (?r5 u) < length u" for u
    by (rule length_replace_all_less) simp_all
  consider (a) "includes_js t ''&lt;''"
    | (b) "\<not> includes_js t ''&lt;''" "includes_js t ''&gt;''"
    | (c) "\<not> includes_js t ''&lt;''" "\<not> includes_js t ''&gt;''" "includes_js t ''&amp;''"
    | (d) "\<not> includes_js t ''&lt;''" "\<not> includes_js t ''&gt;''" "\<not> includes_js t ''&amp;''"
          "includes_js t ''&quot;''"
    | (e) "\<not> includes_js t ''&lt;''" "\<not> includes_js t ''&gt;''" "\<not> includes_js t ''&amp;''"
          "\<not> includes_js t ''&quot;''" "includes_js t ''&#39;''"
    using assms unfolding has_entity_def by blast
  then show ?thesis
  proof cases
    case a
    have "length (?r5 (?r4 (?r3 (?r2 (?r1 t))))) \<le> length (?r1 t)"
      using le5 le4 le3 le2 by (meson le_trans)
    with lt1[OF a] show ?thesis by simp
  next
    case b
    then have "?r1 t = t" by (simp add: replace_all_fix)
    moreover have "length (?r5 (?r4 (?r3 (?r2 t)))) \<le> length (?r2 t)"
      using le5 le4 le3 by (meson le_trans)
    ultimately show ?thesis using lt2[OF b(2)] by simp
  next
    case c
    then have "?r2 (?r1 t) = t" by (simp add: replace_all_fix)
    moreover have "length (?r5 (?r4 (?r3 t))) \<le> length (?r3 t)"
      using le5 le4 by (meson le_trans)
    ultimately show ?thesis using lt3[OF c(3)] by simp
  next
    case d
    then have "?r3 (?r2 (?r1 t)) = t" by (simp add: replace_all_fix)
    moreover have "length (?r5 (?r4 t)) \<le> length (?r4 t)"
      using le5 by simp
    ultimately show ?thesis using lt4[OF d(4)] by simp
  next
    case e
    then have "?r4 (?r3 (?r2 (?r1 t))) = t" by (simp add: replace_all_fix)
    then show ?thesis using lt5[OF e(5)] by simp
  qed
qed

lemma entities_fix:
  assumes "\<not> has_entity t"
  shows "replace_all ''&#39;'' [CHR 0x27]
               (replace_all ''&quot;'' [CHR 0x22]
                 (replace_all ''&amp;'' ''&''
                   (replace_all ''&gt;'' ''>''
                     (replace_all ''&lt;'' ''<'' t)))) = t"
  using assms unfolding has_entity_def by (simp add: replace_all_fix)

lemma decodeHtml_shape:
  "no_tag (decodeHtml s) \<and> ws_norm (decodeHtml s)
   \<and> (decodeHtml s = [] \<or> (\<not> isSpaceJS (hd (decodeHtml s)) \<and> \<not> isSpaceJS (last (decodeHtml s))))"
proof (cases "s = []")
  case True
  then show ?thesis by (simp add: decodeHtml_def)
next
  case False
  then obtain u where u: "decodeHtml s = trim (collapse_ws (strip_tags u))"
    by (simp add: decodeHtml_def)
  have "no_tag (trim (collapse_ws (strip_tags u)))"
    by (intro no_tag_trim no_tag_collapse_ws no_tag_strip_tags)
  moreover have "ws_norm (trim (collapse_ws (strip_tags u)))"
    by (intro ws_norm_trim ws_norm_collapse_ws)
  ultimately show ?thesis
    unfolding u using trim_head[of "collapse_ws (strip_tags u)"] trim_last[of "collapse_ws (strip_tags u)"]
    by blast
qed

lemma decodeHtml_length: "length (decodeHtml t) \<le> length t"
proof (cases "t = []")
  case True
  then show ?thesis by (simp add: decodeHtml_def)
next
  case False
  let ?e = "replace_all ''&#39;'' [CHR 0x27]
               (replace_all ''&quot;'' [CHR 0x22]
                 (replace_all ''&amp;'' ''&''
                   (replace_all ''&gt;'' ''>''
                     (replace_all ''&lt;'' ''<'' t))))"
  have "length (trim (collapse_ws (strip_tags ?e))) \<le> length ?e"
    using length_trim[of "collapse_ws (strip_tags ?e)"] length_collapse_ws[of "strip_tags ?e"]
      length_strip_tags[of ?e] by linarith
  with length_entities_le[of t] False show ?thesis by (simp add: decodeHtml_def)
qed

lemma decodeHtml_idem_iff:
  "decodeHtml (decodeHtml s) = decodeHtml s \<longleftrightarrow> \<not> has_entity (decodeHtml s)"
proof
  let ?t = "decodeHtml s"
  assume eq: "decodeHtml ?t = ?t"
  show "\<not> has_entity ?t"
  proof
    assume h: "has_entity ?t"
    then have ne: "?t \<noteq> []" by (auto simp: has_entity_def)
    let ?e = "replace_all ''&#39;'' [CHR 0x27]
               (replace_all ''&quot;'' [CHR 0x22]
                 (replace_all ''&amp;'' ''&''
                   (replace_all ''&gt;'' ''>''
                     (replace_all ''&lt;'' ''<'' ?t))))"
    have "length (trim (collapse_ws (strip_tags ?e))) \<le> length ?e"
      using length_trim[of "collapse_ws (strip_tags ?e)"] length_collapse_ws[of "strip_tags ?e"]
        length_strip_tags[of ?e] by linarith
    moreover have "decodeHtml ?t = trim (collapse_ws (strip_tags ?e))"
      using ne by (simp add: decodeHtml_def[of ?t])
    ultimately have "length (decodeHtml ?t) < length ?t"
      using length_entities_less[OF h] by simp
    with eq show False by simp
  qed
next
  let ?t = "decodeHtml s"
  assume h: "\<not> has_entity ?t"
  have sh: "no_tag ?t" "ws_norm ?t" "?t = [] \<or> (\<not> isSpaceJS (hd ?t) \<and> \<not> isSpaceJS (last ?t))"
    using decodeHtml_shape[of s] by simp_all
  show "decodeHtml ?t = ?t"
  proof (cases "?t = []")
    case True
    then show ?thesis by (simp add: decodeHtml_def[of "[]"])
  next
    case False
    have "decodeHtml ?t = trim (collapse_ws (strip_tags ?t))"
      using False entities_fix[OF h] by (simp add: decodeHtml_def[of ?t])
    also have "\<dots> = ?t"
      using sh by (simp add: strip_tags_fix collapse_ws_fix trim_fix)
    finally show ?thesis .
  qed
qed

lemma includes_js_set: "includes_js t pat \<Longrightarrow> set pat \<subseteq> set t"
  unfolding includes_js_iff by auto

lemma set_trim: "set (trim x) \<subseteq> set x"
proof -
  obtain p q where "x = p @ trim x @ q" using trim_decomp by blast
  then have "set x = set p \<union> set (trim x) \<union> set q" by (metis set_append Un_assoc)
  then show ?thesis by blast
qed

lemma no_amp_no_entity: "CHR ''&'' \<notin> set t \<Longrightarrow> \<not> has_entity t"
  unfolding has_entity_def using includes_js_set[of t] by fastforce

lemma decodeHtml_no_amp:
  assumes "CHR ''&'' \<notin> set s"
  shows "CHR ''&'' \<notin> set (decodeHtml s)"
proof (cases "s = []")
  case True
  then show ?thesis by (simp add: decodeHtml_def)
next
  case False
  have e: "decodeHtml s = trim (collapse_ws (strip_tags s))"
    using False entities_fix[OF no_amp_no_entity[OF assms]] by (simp add: decodeHtml_def)
  have "set (trim (collapse_ws (strip_tags s))) \<subseteq> insert (CHR '' '') (set s)"
    using set_trim[of "collapse_ws (strip_tags s)"] set_collapse_ws[of "strip_tags s"]
      set_strip_tags[of s] by blast
  with assms show ?thesis unfolding e by auto
qed

text \<open>
  C3, as the spec states it: sanitizing \<open>&amp;amp;\<close> gives \<open>&amp;\<close>, and sanitizing
  that again gives \<open>&\<close>, a different text.
\<close>

theorem C3_sanitizer_not_idempotent_counterexample:
  "decodeHtml ''&amp;amp;'' = ''&amp;'' \<and> decodeHtml (decodeHtml ''&amp;amp;'') = ''&''
   \<and> decodeHtml (decodeHtml ''&amp;amp;'') \<noteq> decodeHtml ''&amp;amp;''"
  by code_simp

text \<open>
  C3, amended. Sanitizing a sanitized text gives the same text exactly when the
  sanitized text contains none of the five entities \<open>&lt; &gt; &amp; &quot; &#39;\<close>;
  this is so in particular for every input without the character \<open>&\<close>.
\<close>

theorem C3_sanitizer_idempotent_without_entities:
  "(decodeHtml (decodeHtml s) = decodeHtml s \<longleftrightarrow> \<not> has_entity (decodeHtml s))
   \<and> (CHR ''&'' \<notin> set s \<longrightarrow> decodeHtml (decodeHtml s) = decodeHtml s)"
proof -
  have a: "decodeHtml (decodeHtml s) = decodeHtml s \<longleftrightarrow> \<not> has_entity (decodeHtml s)"
    by (rule decodeHtml_idem_iff)
  have "CHR ''&'' \<notin> set s \<longrightarrow> \<not> has_entity (decodeHtml s)"
    using decodeHtml_no_amp[of s] no_amp_no_entity[of "decodeHtml s"] by blast
  with a show ?thesis by blast
qed

theorem C3_sanitizer_idempotent_without_entities_witness:
  "CHR ''&'' \<notin> set ''<p>Build   great UI</p>''
   \<and> decodeHtml ''<p>Build   great UI</p>'' = ''Build great UI''
   \<and> decodeHtml (decodeHtml ''<p>Build   great UI</p>'') = ''Build great UI''"
proof -
  have h: "CHR ''&'' \<notin> set ''<p>Build   great UI</p>''" by simp
  have v: "decodeHtml ''<p>Build   great UI</p>'' = ''Build great UI''" by code_simp
  show ?thesis using h v C3_sanitizer_idempotent_without_entities[of "''<p>Build   great UI</p>''"] by simp
qed

section \<open>Properties of the job normalizer\<close>

text \<open>
  C1, as the spec states it: for the record in which every optional field is absent,
  the identifier and the title of the normalized job are \<open>undefined\<close>.
\<close>

theorem C1_absent_fields_undefined_counterexample:
  "externalId (normalizeJob (GreenhouseScraper_new ''acme'') ''2024-01-01T00:00:00.000Z'' empty_record) = None
   \<and> title (normalizeJob (GreenhouseScraper_new ''acme'') ''2024-01-01T00:00:00.000Z'' empty_record) = None
   \<and> \<not> all_defined (normalizeJob (GreenhouseScraper_new ''acme'') ''2024-01-01T00:00:00.000Z'' empty_record)"
  by (simp add: normalizeJob_def empty_record_def all_defined_def)

text \<open>
  C1, amended. \<open>normalizeJob\<close> is a total function of the record. An absent location
  gives the location \<open>Remote\<close>; absent departments, offices, metadata and questions
  give the empty sequence; absent content gives the empty string in both content
  fields; the time stamp, the source tag and the tenant identifier are always set. The
  identifier, the title, the two URLs and the update time are passed through: each is
  \<open>undefined\<close> exactly when the vendor's field is absent, so every field is defined
  exactly when the record has an identifier, a title, a URL and an update time.
\<close>

theorem C1_normalizer_defaults:
  "(raw_location job = None \<longrightarrow> location (normalizeJob self now job) = ''Remote'')
   \<and> (raw_departments job = None \<longrightarrow> departments (normalizeJob self now job) = [])
   \<and> (raw_offices job = None \<longrightarrow> offices (normalizeJob self now job) = [])
   \<and> (raw_content job = None \<longrightarrow>
        content (normalizeJob self now job) = [] \<and> htmlContent (normalizeJob self now job) = [])
   \<and> (raw_metadata job = None \<longrightarrow> metadata (normalizeJob self now job) = [])
   \<and> (raw_questions job = None \<longrightarrow> questions (normalizeJob self now job) = [])
   \<and> scrapedAt (normalizeJob self now job) = now
   \<and> source (normalizeJob self now job) = ''greenhouse''
   \<and> companyToken (normalizeJob self now job) = this_companyToken self
   \<and> (externalId (normalizeJob self now job) = None \<longleftrightarrow> raw_id job = None)
   \<and> title (normalizeJob self now job) = raw_title job
   \<and> absoluteUrl (normalizeJob self now job) = raw_absolute_url job
   \<and> applyUrl (normalizeJob self now job) = raw_absolute_url job
   \<and> updatedAt (normalizeJob self now job) = raw_updated_at job
   \<and> (all_defined (normalizeJob self now job) \<longleftrightarrow>
        raw_id job \<noteq> None \<and> raw_title job \<noteq> None \<and> raw_absolute_url job \<noteq> None
        \<and> raw_updated_at job \<noteq> None)"
  by (simp add: normalizeJob_def all_defined_def or_string_def or_array_def)

theorem C1_normalizer_defaults_witness:
  "raw_location empty_record = None
   \<and> location (normalizeJob (GreenhouseScraper_new ''acme'') ''2024-01-01T00:00:00.000Z'' empty_record) = ''Remote''
   \<and> departments (normalizeJob (GreenhouseScraper_new ''acme'') ''2024-01-01T00:00:00.000Z'' empty_record) = []
   \<and> content (normalizeJob (GreenhouseScraper_new ''acme'') ''2024-01-01T00:00:00.000Z'' empty_record) = []
   \<and> questions (normalizeJob (GreenhouseScraper_new ''acme'') ''2024-01-01T00:00:00.000Z'' empty_record) = []"
  using C1_normalizer_defaults[of empty_record "GreenhouseScraper_new ''acme''" "''2024-01-01T00:00:00.000Z''"]
  by (simp add: empty_record_def)

section \<open>Properties of the keyword matcher\<close>

lemma metachars_syntax: "c \<in> set metachars \<longleftrightarrow> isSyntaxChar c"
  by (auto simp: metachars_def isSyntaxChar_def)

lemma parse_plain:
  assumes "\<not> isSyntaxChar c"
  shows "parse_pattern st (alts, cur) (c # rest) = parse_pattern st (alts, cur @ [Chr c]) rest"
proof -
  from assms have "c \<noteq> CHR 0x5C" "c \<noteq> CHR ''|''" "c \<noteq> CHR ''(''" "c \<noteq> CHR '')''"
    by (auto simp: isSyntaxChar_def)
  with assms show ?thesis by simp
qed

lemma parse_escaped:
  assumes "isSyntaxChar c"
  shows "parse_pattern st (alts, cur) (CHR 0x5C # c # rest) = parse_pattern st (alts, cur @ [Chr c]) rest"
proof -
  from assms have "c \<noteq> CHR ''b''" "c \<noteq> CHR ''B''"
    by (auto simp: isSyntaxChar_def)
  with assms show ?thesis by simp
qed

lemma parse_escape_keyword:
  "parse_pattern st (alts, cur) (escape_keyword kw @ rest)
     = parse_pattern st (alts, cur @ map Chr kw) rest"
proof (induction kw arbitrary: cur)
  case Nil
  then show ?case by (simp add: escape_keyword_def)
next
  case (Cons c kw)
  have split: "escape_keyword (c # kw) = (if isSyntaxChar c then [CHR 0x5C, c] else [c]) @ escape_keyword kw"
    by (simp add: escape_keyword_def metachars_syntax)
  show ?case
  proof (cases "isSyntaxChar c")
    case True
    then show ?thesis
      unfolding split using Cons.IH[of "cur @ [Chr c]"] by (simp add: parse_escaped del: parse_pattern.simps)
  next
    case False
    then show ?thesis
      unfolding split using Cons.IH[of "cur @ [Chr c]"] by (simp add: parse_plain del: parse_pattern.simps)
  qed
qed

lemma parse_bar:
  "parse_pattern st (alts, cur) (CHR ''|'' # rest) = parse_pattern st (alts @ [cur], []) rest"
  by simp

lemma parse_join:
  "ks \<noteq> [] \<Longrightarrow>
   parse_pattern st (alts, []) (join_js ''|'' (map escape_keyword ks) @ rest)
     = parse_pattern st (alts @ map (map Chr) (butlast ks), map Chr (last ks)) rest"
proof (induction ks arbitrary: alts rule: induct_list012)
  case 1
  then show ?case by simp
next
  case (2 k)
  show ?case using parse_escape_keyword[of st alts "[]" k rest] by simp
next
  case (3 k k' ks)
  have "parse_pattern st (alts, []) (join_js ''|'' (map escape_keyword (k # k' # ks)) @ rest)
      = parse_pattern st (alts, []) (escape_keyword k @ (CHR ''|'' # join_js ''|'' (map escape_keyword (k' # ks)) @ rest))"
    by simp
  also have "\<dots> = parse_pattern st (alts, map Chr k) (CHR ''|'' # join_js ''|'' (map escape_keyword (k' # ks)) @ rest)"
    using parse_escape_keyword[of st alts "[]" k] by simp
  also have "\<dots> = parse_pattern st (alts @ [map Chr k], []) (join_js ''|'' (map escape_keyword (k' # ks)) @ rest)"
    by (rule parse_bar)
  also have "\<dots> = parse_pattern st ((alts @ [map Chr k]) @ map (map Chr) (butlast (k' # ks)), map Chr (last (k' # ks))) rest"
    by (rule 3(2)) simp
  finally show ?case by simp
qed

lemma hd_escape_keyword:
  "t \<noteq> [] \<Longrightarrow> hd t \<noteq> CHR ''?'' \<Longrightarrow> hd (escape_keyword k @ t) \<noteq> CHR ''?''"
  by (cases k) (auto simp: escape_keyword_def metachars_def)

lemma RegExp_keyword_source:
  assumes "ks \<noteq> []"
  shows "RegExp_i (keyword_source ks) = Compiled [[WordB, Group (map (map Chr) ks), WordB]]"
proof -
  let ?j = "join_js ''|'' (map escape_keyword ks)"
  have src: "keyword_source ks = CHR 0x5C # CHR ''b'' # CHR ''('' # (?j @ [CHR '')'', CHR 0x5C, CHR ''b''])"
    by (simp add: keyword_source_def)
  have hd: "\<not> (?j @ [CHR '')'', CHR 0x5C, CHR ''b''] \<noteq> [] \<and> hd (?j @ [CHR '')'', CHR 0x5C, CHR ''b'']) = CHR ''?'')"
  proof -
    obtain k ks' where ks: "ks = k # ks'" using assms by (cases ks) auto
    define t where "t = (if ks' = [] then [] else CHR ''|'' # join_js ''|'' (map escape_keyword ks')) @ [CHR '')'', CHR 0x5C, CHR ''b'']"
    have "?j @ [CHR '')'', CHR 0x5C, CHR ''b''] = escape_keyword k @ t"
      unfolding ks t_def by (cases ks') simp_all
    moreover have "t \<noteq> []" "hd t \<noteq> CHR ''?''" by (simp_all add: t_def)
    ultimately show ?thesis using hd_escape_keyword[of t k] by simp
  qed
  have "RegExp_i (keyword_source ks)
      = parse_pattern [([], [WordB])] ([], []) (?j @ [CHR '')'', CHR 0x5C, CHR ''b''])"
    unfolding RegExp_i_def src using hd by simp
  also have "\<dots> = parse_pattern [([], [WordB])] ([] @ map (map Chr) (butlast ks), map Chr (last ks)) [CHR '')'', CHR 0x5C, CHR ''b'']"
    by (rule parse_join[OF assms])
  also have "\<dots> = Compiled [[WordB, Group (map (map Chr) (butlast ks) @ [map Chr (last ks)]), WordB]]"
    by simp
  also have "map (map Chr) (butlast ks) @ [map Chr (last ks)] = map (map Chr) (butlast ks @ [last ks])"
    by simp
  also have "butlast ks @ [last ks] = ks" using assms by simp
  finally show ?thesis .
qed

lemma drop_Suc_nth: "i < length s \<Longrightarrow> drop i s = s ! i # drop (Suc i) s"
  by (simp add: Cons_nth_drop_Suc)

lemma match_seq_literal:
  "match_seq (map Chr kw @ ts) s i
     = (if ci_prefix kw (drop i s) then match_seq ts s (i + length kw) else [])"
proof (induction kw arbitrary: i)
  case Nil
  then show ?case by simp
next
  case (Cons c kw)
  show ?case
  proof (cases "i < length s")
    case True
    then have d: "drop i s = s ! i # drop (Suc i) s" by (rule drop_Suc_nth)
    show ?thesis
      using True Cons.IH[of "Suc i"] by (simp add: d eq_commute[of "canonicalize c"])
  next
    case False
    then show ?thesis by simp
  qed
qed

lemma match_disj_literals:
  "match_disj (map (map Chr) ks) s i
     = concat (map (\<lambda>kw. if ci_prefix kw (drop i s) then [i + length kw] else []) ks)"
proof (induction ks)
  case Nil
  then show ?case by simp
next
  case (Cons k ks)
  have "match_seq (map Chr k) s i = (if ci_prefix k (drop i s) then [i + length k] else [])"
    using match_seq_literal[of k "[]" s i] by simp
  with Cons show ?case by simp
qed

lemma match_keyword_pattern:
  "match_disj [[WordB, Group (map (map Chr) ks), WordB]] s i \<noteq> []
     \<longleftrightarrow> (\<exists>kw\<in>set ks. whole_word_at kw s i)"
proof -
  have "match_disj [[WordB, Group (map (map Chr) ks), WordB]] s i
      = (if word_boundary s i
         then concat (map (\<lambda>j. if word_boundary s j then [j] else [])
                (concat (map (\<lambda>kw. if ci_prefix kw (drop i s) then [i + length kw] else []) ks)))
         else [])"
  proof -
    have "match_seq [WordB] s = (\<lambda>j. if word_boundary s j then [j] else [])"
      by (rule ext) simp
    then show ?thesis by (simp add: match_disj_literals)
  qed
  also have "\<dots> \<noteq> [] \<longleftrightarrow> (\<exists>kw\<in>set ks. whole_word_at kw s i)"
    by (auto simp: whole_word_at_def)
  finally show ?thesis .
qed

lemma regex_test_keyword_pattern:
  "regex_test [[WordB, Group (map (map Chr) ks), WordB]] s \<longleftrightarrow> whole_word_hit ks s"
  unfolding regex_test_def whole_word_hit_def match_keyword_pattern
  by (auto simp: list_ex_iff)

lemma filterByKeywords_whole_word:
  assumes "kws \<noteq> []"
  shows "filterByKeywords jobs (Some kws)
           = Inr (filter (\<lambda>job. whole_word_hit kws (searchText job)) jobs)"
  using assms by (simp add: filterByKeywords_def RegExp_keyword_source regex_test_keyword_pattern)

lemma whole_word_hit_iff:
  "whole_word_hit kws text \<longleftrightarrow>
     (\<exists>kw\<in>set kws. \<exists>i\<le>length text. word_boundary text i \<and> ci_prefix kw (drop i text)
        \<and> word_boundary text (i + length kw))"
proof -
  have "set [0..<Suc (length text)] = {i. i \<le> length text}" by auto
  then show ?thesis
    unfolding whole_word_hit_def whole_word_at_def list_ex_iff by blast
qed

lemma filterByKeywords_returns: "\<exists>ys. filterByKeywords jobs kwo = Inr ys"
proof (cases kwo)
  case None
  then show ?thesis by (simp add: filterByKeywords_def)
next
  case (Some kws)
  then show ?thesis
    by (cases "kws = []") (simp_all add: filterByKeywords_def RegExp_keyword_source)
qed

lemma escape_keyword_single:
  "escape_keyword [c] = (if c \<in> set metachars then [CHR 0x5C, c] else [c])"
  by (simp add: escape_keyword_def)

lemmas searchText_eval =
  searchText_def posting_def or_string_def toLowerCase_def toLowerCode_def char_of_eq_iff
  decodeHtml_def trim_def isSpaceJS_def

lemma filterByKeywords_one:
  assumes "kws \<noteq> []" and "RegExp_i (keyword_source kws) = Compiled r"
  shows "filterByKeywords [j] (Some kws) = Inr (if regex_test r (searchText j) then [j] else [])"
  using assms by (simp add: filterByKeywords_def)

lemma RegExp_ui:
  "RegExp_i (keyword_source [''ui'']) = Compiled [[WordB, Group [[Chr (CHR ''u''), Chr (CHR ''i'')]], WordB]]"
  by (simp add: RegExp_keyword_source)


lemma RegExp_cpp:
  "RegExp_i (keyword_source [''c++''])
     = Compiled [[WordB, Group [[Chr (CHR ''c''), Chr (CHR ''+''), Chr (CHR ''+'')]], WordB]]"
  by code_simp

lemma RegExp_Cpp:
  "RegExp_i (keyword_source [''C++''])
     = Compiled [[WordB, Group [[Chr (CHR ''C''), Chr (CHR ''+''), Chr (CHR ''+'')]], WordB]]"
  by code_simp


lemma filterByKeywords_Nil: "filterByKeywords [] kwo = Inr []"
proof (cases kwo)
  case None
  then show ?thesis by (simp add: filterByKeywords_def)
next
  case (Some kws)
  then show ?thesis
    by (cases "kws = []") (simp_all add: filterByKeywords_def RegExp_keyword_source)
qed

text \<open>
  C4. Whatever the keywords are, absent, empty or full of metacharacters,
  \<open>filterByKeywords\<close> returns a sequence and throws nothing. For a non-empty list the
  constructor accepts the source text and the pattern it builds is a word boundary, a
  group with one alternative for each keyword, made of the keyword's own characters as
  literals, and a word boundary: no character of a keyword acts as an operator. A job
  is selected only if some keyword occurs in its searchable text, character for
  character up to letter case. Each of the fourteen characters
  \<open>. * + ? ^ $ { } ( ) | [ ] \\<close> gets a backslash, and no other character does.
\<close>

theorem C4_keywords_compile_and_match_literally:
  "(\<exists>ys. filterByKeywords jobs kwo = Inr ys)
   \<and> (kws \<noteq> [] \<longrightarrow>
        RegExp_i (keyword_source kws) = Compiled [[WordB, Group (map (map Chr) kws), WordB]])
   \<and> (kws \<noteq> [] \<and> filterByKeywords jobs (Some kws) = Inr ys \<and> job \<in> set ys \<longrightarrow>
        (\<exists>kw\<in>set kws. \<exists>i\<le>length (searchText job). ci_prefix kw (drop i (searchText job))))
   \<and> (c \<in> set (''.*+?^${}()|[]'' @ [CHR 0x5C]) \<longrightarrow> escape_keyword [c] = [CHR 0x5C, c])
   \<and> (c \<notin> set (''.*+?^${}()|[]'' @ [CHR 0x5C]) \<longrightarrow> escape_keyword [c] = [c])"
proof -
  have a: "\<exists>ys. filterByKeywords jobs kwo = Inr ys"
    by (rule filterByKeywords_returns)
  have b: "kws \<noteq> [] \<longrightarrow>
        RegExp_i (keyword_source kws) = Compiled [[WordB, Group (map (map Chr) kws), WordB]]"
    by (simp add: RegExp_keyword_source)
  have c: "kws \<noteq> [] \<and> filterByKeywords jobs (Some kws) = Inr ys \<and> job \<in> set ys \<longrightarrow>
        (\<exists>kw\<in>set kws. \<exists>i\<le>length (searchText job). ci_prefix kw (drop i (searchText job)))"
  proof
    assume h: "kws \<noteq> [] \<and> filterByKeywords jobs (Some kws) = Inr ys \<and> job \<in> set ys"
    then have "filterByKeywords jobs (Some kws)
        = Inr (filter (\<lambda>job. whole_word_hit kws (searchText job)) jobs)"
      using filterByKeywords_whole_word[of kws jobs] by simp
    with h have "ys = filter (\<lambda>job. whole_word_hit kws (searchText job)) jobs"
      by simp
    with h have "whole_word_hit kws (searchText job)" by simp
    then show "\<exists>kw\<in>set kws. \<exists>i\<le>length (searchText job). ci_prefix kw (drop i (searchText job))"
      unfolding whole_word_hit_iff by blast
  qed
  have d: "c \<in> set (''.*+?^${}()|[]'' @ [CHR 0x5C]) \<longrightarrow> escape_keyword [c] = [CHR 0x5C, c]"
    unfolding escape_keyword_single metachars_def by simp
  have e: "c \<notin> set (''.*+?^${}()|[]'' @ [CHR 0x5C]) \<longrightarrow> escape_keyword [c] = [c]"
    unfolding escape_keyword_single metachars_def by simp
  show ?thesis using a b c d e by blast
qed

theorem C4_keywords_compile_and_match_literally_witness:
  "[''C++''] \<noteq> []
   \<and> RegExp_i (keyword_source [''C++''])
       = Compiled [[WordB, Group [[Chr (CHR ''C''), Chr (CHR ''+''), Chr (CHR ''+'')]], WordB]]
   \<and> filterByKeywords [posting (Some ''C++11 developer'') [] []] (Some [''C++''])
       = Inr [posting (Some ''C++11 developer'') [] []]
   \<and> posting (Some ''C++11 developer'') [] [] \<in> set [posting (Some ''C++11 developer'') [] []]
   \<and> CHR ''+'' \<in> set (''.*+?^${}()|[]'' @ [CHR 0x5C])
   \<and> escape_keyword ''+'' = [CHR 0x5C, CHR ''+'']"
proof -
  have h1: "[''C++''] \<noteq> []" by simp
  have st: "searchText (posting (Some ''C++11 developer'') [] []) = ''c++11 developer  ''"
    by (simp add: searchText_eval)
  have t: "regex_test [[WordB, Group [[Chr (CHR ''C''), Chr (CHR ''+''), Chr (CHR ''+'')]], WordB]]
             ''c++11 developer  ''"
    by code_simp
  have h2: "filterByKeywords [posting (Some ''C++11 developer'') [] []] (Some [''C++''])
       = Inr [posting (Some ''C++11 developer'') [] []]"
    using filterByKeywords_one[OF h1 RegExp_Cpp] t by (simp add: st)
  have h3: "CHR ''+'' \<in> set (''.*+?^${}()|[]'' @ [CHR 0x5C])" by simp
  show ?thesis
    using h1 h2 h3
      C4_keywords_compile_and_match_literally[of "[posting (Some ''C++11 developer'') [] []]" "Some [''C++'']" "[''C++'']"
            "[posting (Some ''C++11 developer'') [] []]" "posting (Some ''C++11 developer'') [] []"
            "CHR ''+''"]
    by simp
qed



text \<open>
  C6. With absent or empty keywords \<open>filterByKeywords\<close> returns the sequence it was
  given. With a non-empty list it returns the jobs that the compiled pattern matches,
  in the order of the input: a subsequence of the input.
\<close>

theorem C6_pass_through_and_order:
  "filterByKeywords jobs None = Inr jobs
   \<and> filterByKeywords jobs (Some []) = Inr jobs
   \<and> (kws \<noteq> [] \<longrightarrow>
        (\<exists>r. RegExp_i (keyword_source kws) = Compiled r
           \<and> filterByKeywords jobs (Some kws)
               = Inr (filter (\<lambda>job. regex_test r (searchText job)) jobs)
           \<and> subseq (filter (\<lambda>job. regex_test r (searchText job)) jobs) jobs))"
proof -
  have a: "filterByKeywords jobs None = Inr jobs" by (simp add: filterByKeywords_def)
  have b: "filterByKeywords jobs (Some []) = Inr jobs" by (simp add: filterByKeywords_def)
  have c: "kws \<noteq> [] \<longrightarrow>
        (\<exists>r. RegExp_i (keyword_source kws) = Compiled r
           \<and> filterByKeywords jobs (Some kws)
               = Inr (filter (\<lambda>job. regex_test r (searchText job)) jobs)
           \<and> subseq (filter (\<lambda>job. regex_test r (searchText job)) jobs) jobs)"
    by (simp add: filterByKeywords_def RegExp_keyword_source)
  show ?thesis using a b c by blast
qed

theorem C6_pass_through_and_order_witness:
  "[''ui''] \<noteq> []
   \<and> filterByKeywords
         [posting (Some ''UI designer'') [] [], posting (Some ''Build tools'') [] [],
          posting (Some ''Head of UI'') [] []] (Some [''ui''])
       = Inr [posting (Some ''UI designer'') [] [], posting (Some ''Head of UI'') [] []]
   \<and> subseq [posting (Some ''UI designer'') [] [], posting (Some ''Head of UI'') [] []]
         [posting (Some ''UI designer'') [] [], posting (Some ''Build tools'') [] [],
          posting (Some ''Head of UI'') [] []]"
proof -
  let ?r = "[[WordB, Group [[Chr (CHR ''u''), Chr (CHR ''i'')]], WordB]]"
  have h: "[''ui''] \<noteq> []" by simp
  have s1: "searchText (posting (Some ''UI designer'') [] []) = ''ui designer  ''"
    by (simp add: searchText_eval)
  have s2: "searchText (posting (Some ''Build tools'') [] []) = ''build tools  ''"
    by (simp add: searchText_eval)
  have s3: "searchText (posting (Some ''Head of UI'') [] []) = ''head of ui  ''"
    by (simp add: searchText_eval)
  have t1: "regex_test ?r (searchText (posting (Some ''UI designer'') [] []))"
    unfolding s1 by code_simp
  have t2: "\<not> regex_test ?r (searchText (posting (Some ''Build tools'') [] []))"
    unfolding s2 by code_simp
  have t3: "regex_test ?r (searchText (posting (Some ''Head of UI'') [] []))"
    unfolding s3 by code_simp
  show ?thesis
    using h t1 t2 t3 RegExp_ui
      C6_pass_through_and_order[of "[posting (Some ''UI designer'') [] [], posting (Some ''Build tools'') [] [],
              posting (Some ''Head of UI'') [] []]" "[''ui'']"]
    by auto
qed

text \<open>
  C10. With the keyword \<open>c++\<close> the pattern source is \<open>\b(c\+\+)\b\<close>. A job whose title is
  \<open>c++ developer\<close>, with empty content and no departments, has the searchable text
  \<open>c++ developer\<close> followed by two spaces, in which \<open>c++\<close> occurs; the job is not
  selected, because there is no word boundary between \<open>+\<close> and the space. The same
  happens when \<open>c++\<close> ends the searchable text.
\<close>

theorem C10_trailing_nonword_keyword_misses:
  "keyword_source [''c++''] = CHR 0x5C # ''b(c'' @ CHR 0x5C # ''+'' @ CHR 0x5C # ''+)'' @ CHR 0x5C # ''b''
   \<and> searchText (posting (Some ''c++ developer'') [] []) = ''c++ developer  ''
   \<and> includes_js (searchText (posting (Some ''c++ developer'') [] [])) ''c++''
   \<and> filterByKeywords [posting (Some ''c++ developer'') [] []] (Some [''c++'']) = Inr []
   \<and> searchText (posting None [] [''c++'']) = ''  c++''
   \<and> filterByKeywords [posting None [] [''c++'']] (Some [''c++'']) = Inr []
   \<and> \<not> word_boundary ''c++ developer  '' 3
   \<and> \<not> word_boundary ''  c++'' 5"
proof -
  let ?r = "[[WordB, Group [[Chr (CHR ''c''), Chr (CHR ''+''), Chr (CHR ''+'')]], WordB]]"
  have ne: "[''c++''] \<noteq> []" by simp
  have a1: "keyword_source [''c++''] = CHR 0x5C # ''b(c'' @ CHR 0x5C # ''+'' @ CHR 0x5C # ''+)'' @ CHR 0x5C # ''b''"
    by code_simp
  have a2: "searchText (posting (Some ''c++ developer'') [] []) = ''c++ developer  ''"
    by (simp add: searchText_eval)
  have a3: "includes_js (searchText (posting (Some ''c++ developer'') [] [])) ''c++''"
    unfolding a2 by code_simp
  have t1: "\<not> regex_test ?r ''c++ developer  ''"
    by code_simp
  have a4: "filterByKeywords [posting (Some ''c++ developer'') [] []] (Some [''c++'']) = Inr []"
    using filterByKeywords_one[OF ne RegExp_cpp] t1 by (simp add: a2)
  have a5: "searchText (posting None [] [''c++'']) = ''  c++''"
    by (simp add: searchText_eval)
  have t2: "\<not> regex_test ?r ''  c++''"
    by code_simp
  have a6: "filterByKeywords [posting None [] [''c++'']] (Some [''c++'']) = Inr []"
    using filterByKeywords_one[OF ne RegExp_cpp] t2 by (simp add: a5)
  have a7: "\<not> word_boundary ''c++ developer  '' 3"
    by code_simp
  have a8: "\<not> word_boundary ''  c++'' 5"
    by code_simp
  show ?thesis using a1 a2 a3 a4 a5 a6 a7 a8 by blast
qed


section \<open>Properties of the fetch orchestrator\<close>

lemma not_found_message_inj: "not_found_message t = not_found_message t' \<Longrightarrow> t = t'"
  by (simp add: not_found_message_def)

text \<open>
  C7, as the spec states it: a response with a malformed body is not surfaced to the
  caller. The transport resolves, the body has no field \<open>jobs\<close>, and \<open>fetchJobs\<close>
  returns the empty sequence.
\<close>

theorem C7_malformed_body_swallowed_counterexample:
  "fetchJobs (\<lambda>req. Resolved (Some unparsed_body))
        (\<lambda>k. ''2024-01-01T00:00:00.000Z'') (GreenhouseScraper_new ''acme'') Map.empty = Inr []"
  by (simp add: fetchJobs_def or_array_def unparsed_body_def)

text \<open>
  C7, amended. When the transport rejects the listing request with status 404,
  \<open>fetchJobs\<close> fails with the error whose message is
  \<open>Company token "T" not found in Greenhouse\<close>, where \<open>T\<close> is the tenant identifier of
  the scraper, the one in the URL of the request; the message determines the
  identifier. When the transport rejects with any other error (no response, a timeout,
  another status), \<open>fetchJobs\<close> fails with that same error. A response that arrives is
  not a transport failure: without a body it makes \<open>fetchJobs\<close> fail with the
  \<open>TypeError\<close> of the property read, and with a body that has no field \<open>jobs\<close>, as a
  malformed body has, \<open>fetchJobs\<close> returns the empty sequence.
\<close>

theorem C7_not_found_and_propagation:
  "(axios_get (listing_request self filters) = Rejected e \<and> response_status e = Some 404 \<longrightarrow>
      fetchJobs axios_get clock self filters
        = Inl (Error (''Company token '' @ [CHR 0x22] @ this_companyToken self @ [CHR 0x22]
                      @ '' not found in Greenhouse'')))
   \<and> (axios_get (listing_request self filters) = Rejected e \<and> response_status e \<noteq> Some 404 \<longrightarrow>
        fetchJobs axios_get clock self filters = Inl e)
   \<and> (axios_get (listing_request self filters) = Resolved None \<longrightarrow>
        fetchJobs axios_get clock self filters = Inl TypeError)
   \<and> (axios_get (listing_request self filters) = Resolved (Some data) \<and> jobs_field data = None \<longrightarrow>
        fetchJobs axios_get clock self filters = Inr [])
   \<and> req_url (listing_request self filters)
        = baseUrl self @ ''/'' @ this_companyToken self @ ''/jobs''
   \<and> (not_found_message t = not_found_message t' \<longrightarrow> t = t')"
proof -
  have a: "axios_get (listing_request self filters) = Rejected e \<and> response_status e = Some 404 \<longrightarrow>
      fetchJobs axios_get clock self filters
        = Inl (Error (''Company token '' @ [CHR 0x22] @ this_companyToken self @ [CHR 0x22]
                      @ '' not found in Greenhouse''))"
    by (simp add: fetchJobs_def not_found_message_def)
  have b: "axios_get (listing_request self filters) = Rejected e \<and> response_status e \<noteq> Some 404 \<longrightarrow>
        fetchJobs axios_get clock self filters = Inl e"
    by (simp add: fetchJobs_def)
  have c: "axios_get (listing_request self filters) = Resolved None \<longrightarrow>
        fetchJobs axios_get clock self filters = Inl TypeError"
    by (simp add: fetchJobs_def response_status_def)
  have c': "axios_get (listing_request self filters) = Resolved (Some data) \<and> jobs_field data = None \<longrightarrow>
        fetchJobs axios_get clock self filters = Inr []"
    by (simp add: fetchJobs_def or_array_def)
  have d: "req_url (listing_request self filters)
        = baseUrl self @ ''/'' @ this_companyToken self @ ''/jobs''"
    by (simp add: listing_request_def)
  have e: "not_found_message t = not_found_message t' \<longrightarrow> t = t'"
    using not_found_message_inj by blast
  show ?thesis using a b c c' d e by blast
qed

theorem C7_not_found_and_propagation_witness:
  "response_status (AxiosError ''Request failed with status code 404'' (Some 404)) = Some 404
   \<and> fetchJobs (\<lambda>req. Rejected (AxiosError ''Request failed with status code 404'' (Some 404)))
        (\<lambda>k. ''2024-01-01T00:00:00.000Z'') (GreenhouseScraper_new ''acme'') Map.empty
       = Inl (Error (''Company token '' @ [CHR 0x22] @ ''acme'' @ [CHR 0x22] @ '' not found in Greenhouse''))
   \<and> req_url (listing_request (GreenhouseScraper_new ''acme'') Map.empty)
       = ''https://boards-api.greenhouse.io/v1/boards/acme/jobs''
   \<and> response_status (AxiosError ''timeout of 15000ms exceeded'' None) \<noteq> Some 404
   \<and> fetchJobs (\<lambda>req. Rejected (AxiosError ''timeout of 15000ms exceeded'' None))
        (\<lambda>k. ''2024-01-01T00:00:00.000Z'') (GreenhouseScraper_new ''acme'') Map.empty
       = Inl (AxiosError ''timeout of 15000ms exceeded'' None)
   \<and> fetchJobs (\<lambda>req. Rejected (AxiosError ''Request failed with status code 500'' (Some 500)))
        (\<lambda>k. ''2024-01-01T00:00:00.000Z'') (GreenhouseScraper_new ''acme'') Map.empty
       = Inl (AxiosError ''Request failed with status code 500'' (Some 500))
   \<and> jobs_field unparsed_body = None
   \<and> fetchJobs (\<lambda>req. Resolved (Some unparsed_body))
        (\<lambda>k. ''2024-01-01T00:00:00.000Z'') (GreenhouseScraper_new ''acme'') Map.empty = Inr []"
  using C7_not_found_and_propagation
          [of "\<lambda>req. Rejected (AxiosError ''Request failed with status code 404'' (Some 404))"
           "GreenhouseScraper_new ''acme''" Map.empty
           "AxiosError ''Request failed with status code 404'' (Some 404)"
           "\<lambda>k. ''2024-01-01T00:00:00.000Z''"]
        C7_not_found_and_propagation
          [of "\<lambda>req. Rejected (AxiosError ''timeout of 15000ms exceeded'' None)"
           "GreenhouseScraper_new ''acme''" Map.empty
           "AxiosError ''timeout of 15000ms exceeded'' None"
           "\<lambda>k. ''2024-01-01T00:00:00.000Z''"]
        C7_not_found_and_propagation
          [of "\<lambda>req. Rejected (AxiosError ''Request failed with status code 500'' (Some 500))"
           "GreenhouseScraper_new ''acme''" Map.empty
           "AxiosError ''Request failed with status code 500'' (Some 500)"
           "\<lambda>k. ''2024-01-01T00:00:00.000Z''"]
        C7_not_found_and_propagation
          [of "\<lambda>req. Resolved (Some unparsed_body)"
           "GreenhouseScraper_new ''acme''" Map.empty
           "AxiosError ''Request failed with status code 500'' (Some 500)"
           "\<lambda>k. ''2024-01-01T00:00:00.000Z''" unparsed_body]
  by (simp add: response_status_def GreenhouseScraper_new_def unparsed_body_def)

text \<open>
  C8. When the response's field \<open>jobs\<close> is an empty array, absent or \<open>null\<close>,
  \<open>fetchJobs\<close> returns the empty sequence; and \<open>filterByKeywords\<close> on the empty
  sequence returns the empty sequence, whatever the keywords.
\<close>

theorem C8_empty_listing:
  "(axios_get (listing_request self filters) = Resolved (Some data)
      \<and> (jobs_field data = None \<or> jobs_field data = Some []) \<longrightarrow>
        fetchJobs axios_get clock self filters = Inr [])
   \<and> filterByKeywords [] kwo = Inr []"
proof -
  have a: "axios_get (listing_request self filters) = Resolved (Some data)
      \<and> (jobs_field data = None \<or> jobs_field data = Some []) \<longrightarrow>
        fetchJobs axios_get clock self filters = Inr []"
    by (auto simp: fetchJobs_def or_array_def)
  show ?thesis using a filterByKeywords_Nil by blast
qed

theorem C8_empty_listing_witness:
  "fetchJobs (\<lambda>req. Resolved (Some \<lparr>jobs_field = None\<rparr>))
        (\<lambda>k. ''2024-01-01T00:00:00.000Z'') (GreenhouseScraper_new ''acme'') Map.empty = Inr []
   \<and> filterByKeywords [] (Some [''ui'', ''C++'']) = Inr []"
  using C8_empty_listing[of "\<lambda>req. Resolved (Some \<lparr>jobs_field = None\<rparr>)" "GreenhouseScraper_new ''acme''"
           Map.empty "\<lparr>jobs_field = None\<rparr>" "\<lambda>k. ''2024-01-01T00:00:00.000Z''" "Some [''ui'', ''C++'']"]
  by simp

end
